theory Spec2Isabelle
  imports Main
begin

section \<open>Python values, exceptions and sequence primitives\<close>

text \<open>
  The engine of \<^verbatim>\<open>completion_engine.py\<close> works on Python strings, lists of strings,
  integers and dictionaries. A Python \<^verbatim>\<open>str\<close> is modelled as a \<^typ>\<open>string\<close> in which
  every \<^typ>\<open>char\<close> stands for one code point (so \<^verbatim>\<open>len\<close> is \<^const>\<open>length\<close>), a
  Python \<^verbatim>\<open>int\<close> as \<^typ>\<open>int\<close>, and a \<^verbatim>\<open>dict\<close> as an association list in
  insertion order. Exceptions are values: a function that can raise returns
  \<open>exn + 'a\<close>, with \<open>Inl\<close> for the exception.
\<close>

datatype exn_kind = TypeError | IndexError | ValueError | OtherError string

text \<open>An exception carries its class and the text \<^verbatim>\<open>str(exc)\<close> gives for it.\<close>

datatype exn = Exn exn_kind string

abbreviation nl :: string where
  "nl \<equiv> [CHR 0x0A]"

abbreviation tab :: char where
  "tab \<equiv> CHR 0x09"

text \<open>
  A slice bound \<^verbatim>\<open>i\<close> of a sequence of length \<^verbatim>\<open>n\<close>: a negative bound counts from the
  end and stops at the start, a non-negative one stops at the end.
\<close>

definition slice_bound :: "nat \<Rightarrow> int \<Rightarrow> nat" where
  "slice_bound n i = (if i < 0 then nat (max 0 (i + int n)) else min (nat i) n)"

text \<open>\<^verbatim>\<open>xs[lo:hi]\<close>, with \<open>None\<close> for an omitted bound. Slicing never raises.\<close>

definition py_slice :: "'a list \<Rightarrow> int option \<Rightarrow> int option \<Rightarrow> 'a list" where
  "py_slice xs lo hi =
    (let n = length xs;
         a = (case lo of None \<Rightarrow> 0 | Some i \<Rightarrow> slice_bound n i);
         b = (case hi of None \<Rightarrow> n | Some j \<Rightarrow> slice_bound n j)
     in drop a (take b xs))"

text \<open>\<^verbatim>\<open>xs[i]\<close>: a negative index counts from the end; out of range raises.\<close>

definition py_index :: "'a list \<Rightarrow> int \<Rightarrow> exn + 'a" where
  "py_index xs i =
    (let n = int (length xs) in
     if 0 \<le> i \<and> i < n then Inr (xs ! nat i)
     else if - n \<le> i \<and> i < 0 then Inr (xs ! nat (i + n))
     else Inl (Exn IndexError ''list index out of range''))"

text \<open>\<^verbatim>\<open>sep.join(xs)\<close>.\<close>

fun py_join :: "string \<Rightarrow> string list \<Rightarrow> string" where
  "py_join sep [] = []"
| "py_join sep [x] = x"
| "py_join sep (x # y # ys) = x @ sep @ py_join sep (y # ys)"

text \<open>\<^verbatim>\<open>s.lstrip(chars)\<close>.\<close>

definition lstrip :: "string \<Rightarrow> string \<Rightarrow> string" where
  "lstrip chars s = dropWhile (\<lambda>c. c \<in> set chars) s"

section \<open>The cursor splitter\<close>

text \<open>
  \<^verbatim>\<open>_split_prefix_suffix(self, lines, line, character)\<close>: the full-document prefix and
  suffix at the cursor, and the indentation left of the cursor. The engine itself is
  not read.
\<close>

definition split_prefix_suffix :: "string list \<Rightarrow> int \<Rightarrow> int \<Rightarrow> exn + (string \<times> string \<times> string)" where
  "split_prefix_suffix lines line character =
    (let bounded_line = (if lines \<noteq> [] then max 0 (min line (int (length lines) - 1)) else 0) in
     case (if lines \<noteq> [] then py_index lines bounded_line else Inr []) of
       Inl e \<Rightarrow> Inl e
     | Inr current_line \<Rightarrow>
         (let bounded_character = max 0 (min character (int (length current_line)));
              left = py_slice current_line None (Some bounded_character);
              right = py_slice current_line (Some bounded_character) None;
              indent = py_slice left None
                         (Some (int (length left) - int (length (lstrip [CHR '' '', tab] left))));
              prefix0 = py_join nl (py_slice lines None (Some bounded_line));
              prefix = (if prefix0 \<noteq> [] then prefix0 @ nl @ left else left);
              suffix0 = right;
              suffix = (if bounded_line + 1 < int (length lines)
                        then (suffix0 @ nl) @ py_join nl (py_slice lines (Some (bounded_line + 1)) None)
                        else suffix0)
          in Inr (prefix, suffix, indent)))"

section \<open>Dictionaries and option values\<close>

text \<open>
  The values that travel in the options dictionary and in a request payload: \<^verbatim>\<open>None\<close>,
  booleans, integers, strings and nested dictionaries. Floating-point option values
  are outside this model.
\<close>

datatype pyval = VNone | VBool bool | VInt int | VStr string | VDict "(string \<times> pyval) list"

type_synonym pydict = "(string \<times> pyval) list"

text \<open>The truth value Python gives a value in a condition.\<close>

fun truthy :: "pyval \<Rightarrow> bool" where
  "truthy VNone = False"
| "truthy (VBool b) = b"
| "truthy (VInt i) = (i \<noteq> 0)"
| "truthy (VStr s) = (s \<noteq> [])"
| "truthy (VDict d) = (d \<noteq> [])"

text \<open>\<^verbatim>\<open>d[k] = v\<close>: an existing key keeps its place, a new key goes last.\<close>

fun dict_set :: "pydict \<Rightarrow> string \<Rightarrow> pyval \<Rightarrow> pydict" where
  "dict_set [] k v = [(k, v)]"
| "dict_set (kv # d) k v = (if fst kv = k then (k, v) # d else kv # dict_set d k v)"

text \<open>\<^verbatim>\<open>d.pop(k, default)\<close>: the value and the dictionary without the key.\<close>

definition dict_pop :: "pydict \<Rightarrow> string \<Rightarrow> pyval \<Rightarrow> pyval \<times> pydict" where
  "dict_pop d k dflt =
    (case map_of d k of
       None \<Rightarrow> (dflt, d)
     | Some v \<Rightarrow> (v, filter (\<lambda>kv. fst kv \<noteq> k) d))"

definition dict_keys :: "pydict \<Rightarrow> string set" where
  "dict_keys d = fst ` set d"

text \<open>
  \<^verbatim>\<open>int(v)\<close>. Python's parser of integer literals in strings is a builtin outside the
  repository and is taken as the parameter \<open>parse\<close> (\<open>None\<close> where it raises).
\<close>

fun py_int :: "(string \<Rightarrow> int option) \<Rightarrow> pyval \<Rightarrow> exn + int" where
  "py_int parse (VInt i) = Inr i"
| "py_int parse (VBool b) = Inr (if b then 1 else 0)"
| "py_int parse (VStr s) =
     (case parse s of
        Some i \<Rightarrow> Inr i
      | None \<Rightarrow> Inl (Exn ValueError ''invalid literal for int() with base 10''))"
| "py_int parse VNone = Inl (Exn TypeError ''int() argument must be a string, a bytes-like object or a real number'')"
| "py_int parse (VDict d) = Inl (Exn TypeError ''int() argument must be a string, a bytes-like object or a real number'')"

text \<open>\<^verbatim>\<open>os.getenv(name, default)\<close> over an environment \<open>env\<close>.\<close>

definition getenv :: "(string \<Rightarrow> string option) \<Rightarrow> string \<Rightarrow> string \<Rightarrow> string" where
  "getenv env name dflt = (case env name of None \<Rightarrow> dflt | Some v \<Rightarrow> v)"

text \<open>\<^verbatim>\<open>needle in hay\<close> for strings.\<close>

fun str_contains :: "string \<Rightarrow> string \<Rightarrow> bool" where
  "str_contains needle [] = (needle = [])"
| "str_contains needle (c # cs) =
     (take (length needle) (c # cs) = needle \<or> str_contains needle cs)"

section \<open>The engine and its construction\<close>

record engine =
  model :: string
  options :: pydict
  fim_enabled :: pyval
  fim_mode :: pyval
  context_lines_before :: int
  context_lines_after :: int
  max_prefix_chars :: int
  max_suffix_chars :: int
  debug :: bool
  debug_log_file :: pyval

text \<open>
  \<^verbatim>\<open>__init__(self, model, client_url, options)\<close>. The options dictionary is emptied of
  the engine's own keys by \<^verbatim>\<open>pop\<close>, in the order of the source; each \<^verbatim>\<open>int(...)\<close> may
  raise, and then no engine exists. The backend client is a parameter of
  \<open>complete\<close> below.
\<close>

definition init :: "(string \<Rightarrow> int option) \<Rightarrow> (string \<Rightarrow> string option) \<Rightarrow> string \<Rightarrow> pydict option \<Rightarrow> exn + engine" where
  "init parse env model_name opts =
    (let o0 = (case opts of None \<Rightarrow> [] | Some d \<Rightarrow> if d \<noteq> [] then d else []);
         (fe, o1) = dict_pop o0 ''fim_enabled'' (VBool True);
         (fm, o2) = dict_pop o1 ''fim_mode'' (VStr ''auto'');
         (clb, o3) = dict_pop o2 ''context_lines_before'' (VInt 80)
     in case py_int parse clb of Inl e \<Rightarrow> Inl e | Inr clb_i \<Rightarrow>
     (let (cla, o4) = dict_pop o3 ''context_lines_after'' (VInt 40)
      in case py_int parse cla of Inl e \<Rightarrow> Inl e | Inr cla_i \<Rightarrow>
     (let (mpc, o5) = dict_pop o4 ''max_prefix_chars'' (VInt 8000)
      in case py_int parse mpc of Inl e \<Rightarrow> Inl e | Inr mpc_i \<Rightarrow>
     (let (msc, o6) = dict_pop o5 ''max_suffix_chars'' (VInt 3000)
      in case py_int parse msc of Inl e \<Rightarrow> Inl e | Inr msc_i \<Rightarrow>
     (let (dbg, o7) = dict_pop o6 ''debug'' (VBool False);
          dbg_b = (truthy dbg \<or> getenv env ''OLLAMA_COPILOT_DEBUG'' [] = ''1'');
          (dlf, o8) = dict_pop o7 ''debug_log_file'' VNone;
          dlf_v = (if truthy dlf then dlf
                   else VStr (getenv env ''OLLAMA_COPILOT_DEBUG_LOG'' ''/tmp/ollama-copilot-debug.log''))
      in Inr \<lparr> model = model_name, options = o8, fim_enabled = fe, fim_mode = fm,
               context_lines_before = clb_i, context_lines_after = cla_i,
               max_prefix_chars = mpc_i, max_suffix_chars = msc_i,
               debug = dbg_b, debug_log_file = dlf_v \<rparr>)))))"

text \<open>The keys \<^verbatim>\<open>__init__\<close> pops from the options.\<close>

definition recognized_keys :: "string list" where
  "recognized_keys = [''fim_enabled'', ''fim_mode'', ''context_lines_before'', ''context_lines_after'',
     ''max_prefix_chars'', ''max_suffix_chars'', ''debug'', ''debug_log_file'']"

section \<open>The context windower\<close>

text \<open>
  \<^verbatim>\<open>json.dumps(s)\<close> of a string with the default \<^verbatim>\<open>ensure_ascii\<close>: the backslash and the
  double quote are escaped, the control characters with a short escape get it, every
  other character outside the printable ASCII range becomes \<^verbatim>\<open>\u00xx\<close>.
\<close>

abbreviation bslash :: char where
  "bslash \<equiv> CHR 0x5C"

abbreviation dquote :: char where
  "dquote \<equiv> CHR 0x22"

definition hex_digit :: "nat \<Rightarrow> char" where
  "hex_digit d = ''0123456789abcdef'' ! d"

definition json_escape_char :: "char \<Rightarrow> string" where
  "json_escape_char c =
    (if c = bslash then [bslash, bslash]
     else if c = dquote then [bslash, dquote]
     else if c = CHR 0x08 then [bslash, CHR ''b'']
     else if c = CHR 0x0C then [bslash, CHR ''f'']
     else if c = CHR 0x0A then [bslash, CHR ''n'']
     else if c = CHR 0x0D then [bslash, CHR ''r'']
     else if c = CHR 0x09 then [bslash, CHR ''t'']
     else if (0x20::nat) \<le> of_char c \<and> of_char c \<le> (0x7E::nat) then [c]
     else [bslash, CHR ''u'', CHR ''0'', CHR ''0'',
           hex_digit (of_char c div 16), hex_digit (of_char c mod 16)])"

definition json_dumps :: "string \<Rightarrow> string" where
  "json_dumps s = [dquote] @ concat (map json_escape_char s) @ [dquote]"

text \<open>
  The text that the \<^verbatim>\<open>return\<close> of \<^verbatim>\<open>_centered_prefix\<close> assembles from the filetype,
  the indentation, the bounded text before the cursor line and the two halves of the
  current line.
\<close>

definition instruction_block :: "string \<Rightarrow> string \<Rightarrow> string \<Rightarrow> string \<Rightarrow> string \<Rightarrow> string" where
  "instruction_block filetype indent before_text line_prefix line_suffix =
    ''[AUTOCOMPLETE_TASK]'' @ nl
    @ ''Return ONLY the exact text to insert at <CURSOR>.'' @ nl
    @ ''Do not restate existing text. Do not explain. Do not use markdown fences.'' @ nl
    @ ''filetype='' @ (if filetype \<noteq> [] then filetype else ''plain'') @ nl
    @ ''indentation='' @ json_dumps indent @ nl
    @ ''[PREFIX_BEFORE_CURSOR]'' @ nl
    @ before_text @ nl
    @ ''[CURRENT_LINE_PREFIX]'' @ nl
    @ line_prefix @ nl
    @ ''[CURRENT_LINE_SUFFIX]'' @ nl
    @ line_suffix @ nl
    @ ''[INSERT_AT_CURSOR]'' @ nl"

text \<open>
  \<^verbatim>\<open>_centered_prefix(self, lines, line, character, filetype, indent)\<close>: the instruction
  block with the lines before the cursor line, bounded by
  \<^verbatim>\<open>context_lines_before\<close> and \<^verbatim>\<open>max_prefix_chars\<close>.
\<close>

definition centered_prefix :: "engine \<Rightarrow> string list \<Rightarrow> int \<Rightarrow> int \<Rightarrow> string \<Rightarrow> string \<Rightarrow> exn + string" where
  "centered_prefix eng lines0 line character filetype indent =
    (let lines = (if lines0 = [] then [[]] else lines0);
         bounded_line = max 0 (min line (int (length lines) - 1))
     in case py_index lines bounded_line of
       Inl e \<Rightarrow> Inl e
     | Inr current_line \<Rightarrow>
         (let bounded_character = max 0 (min character (int (length current_line)));
              start = max 0 (bounded_line - context_lines_before eng);
              before_lines = py_slice lines (Some start) (Some bounded_line);
              line_prefix = py_slice current_line None (Some bounded_character);
              line_suffix = py_slice current_line (Some bounded_character) None;
              before_text0 = py_join nl before_lines;
              before_text = (if int (length before_text0) > max_prefix_chars eng
                             then py_slice before_text0 (Some (- max_prefix_chars eng)) None
                             else before_text0)
          in Inr (instruction_block filetype indent before_text line_prefix line_suffix)))"

section \<open>The FIM encoder and the request builder\<close>

text \<open>\<^verbatim>\<open>_manual_fim_prompt(self, prefix, suffix)\<close>.\<close>

definition manual_fim_prompt :: "engine \<Rightarrow> string \<Rightarrow> string \<Rightarrow> string" where
  "manual_fim_prompt eng prefix suffix =
    (let bounded_suffix = py_slice suffix None (Some (max_suffix_chars eng))
     in ''<|fim_prefix|>'' @ prefix @ ''<|fim_suffix|>'' @ bounded_suffix @ ''<|fim_middle|>'')"

text \<open>The local \<^verbatim>\<open>use_template_fim\<close> of \<^verbatim>\<open>build_request_payload\<close>, as a condition.\<close>

definition use_template_fim :: "engine \<Rightarrow> bool \<Rightarrow> bool" where
  "use_template_fim eng force_manual_fim =
    (truthy (fim_enabled eng) \<and> \<not> force_manual_fim
     \<and> (fim_mode eng = VStr ''auto'' \<or> fim_mode eng = VStr ''template''))"

text \<open>
  \<^verbatim>\<open>build_request_payload(self, lines, line, character, filetype, force_manual_fim)\<close>.
  The payload is the dictionary in the order its keys are set.
\<close>

definition build_request_payload :: "engine \<Rightarrow> string list \<Rightarrow> int \<Rightarrow> int \<Rightarrow> string \<Rightarrow> bool \<Rightarrow> exn + pydict" where
  "build_request_payload eng lines line character filetype force_manual_fim =
    (case split_prefix_suffix lines line character of
       Inl e \<Rightarrow> Inl e
     | Inr (prefix, suffix, local_indent) \<Rightarrow>
    (case centered_prefix eng lines line character filetype local_indent of
       Inl e \<Rightarrow> Inl e
     | Inr centered \<Rightarrow>
         (let payload = [(''model'', VStr (model eng)), (''stream'', VBool True),
                         (''options'', VDict (options eng))]
          in if use_template_fim eng force_manual_fim then
               Inr (dict_set
                     (dict_set payload ''prompt''
                        (VStr (py_slice prefix (Some (- max_prefix_chars eng)) None)))
                     ''suffix'' (VStr (py_slice suffix None (Some (max_suffix_chars eng)))))
             else if truthy (fim_enabled eng) then
               Inr (dict_set payload ''prompt''
                     (VStr (manual_fim_prompt eng
                              (py_slice prefix (Some (- max_prefix_chars eng)) None) suffix)))
             else Inr (dict_set payload ''prompt'' (VStr (centered @ nl))))))"

section \<open>The stream adapter and the debug log\<close>

text \<open>
  A raw chunk is a dictionary or another object. Of an object the adapter looks at
  whether it has a \<^verbatim>\<open>model_dump\<close> or a \<^verbatim>\<open>dict\<close> method (\<open>Some\<close> of what the call
  returns) and otherwise at its \<^verbatim>\<open>str\<close>.
\<close>

record pyobject =
  model_dump_result :: "pyval option"
  dict_result :: "pyval option"
  str_result :: string

datatype chunk = ChunkDict pydict | ChunkObj pyobject

text \<open>\<^verbatim>\<open>_normalize_chunk(self, chunk)\<close>.\<close>

fun normalize_chunk :: "chunk \<Rightarrow> pyval" where
  "normalize_chunk (ChunkDict d) = VDict d"
| "normalize_chunk (ChunkObj ob) =
     (case model_dump_result ob of
        Some v \<Rightarrow> v
      | None \<Rightarrow>
          (case dict_result ob of
             Some v \<Rightarrow> v
           | None \<Rightarrow> VDict [(''response'', VStr (str_result ob))]))"

text \<open>
  The log file is a sink that takes a record or refuses it; a refused write is
  swallowed. \<^verbatim>\<open>_debug_log(self, event, payload)\<close> returns the sink and never raises.
  The values logged here are plain values, which have neither a \<^verbatim>\<open>model_dump\<close> nor a
  \<^verbatim>\<open>dict\<close> method, so they are written as they are.
\<close>

record sink =
  writable :: bool
  entries :: "(string \<times> pyval) list"

definition debug_log :: "engine \<Rightarrow> string \<Rightarrow> pyval \<Rightarrow> sink \<Rightarrow> sink" where
  "debug_log eng event payload s =
    (if \<not> debug eng then s
     else if writable s then s\<lparr>entries := entries s @ [(event, payload)]\<rparr>
     else s)"

text \<open>
  \<^verbatim>\<open>_debug_stream(self, stream)\<close> returns a generator: nothing runs until the consumer
  iterates, so the result is a function of the sink at that time.
\<close>

fun debug_stream :: "engine \<Rightarrow> chunk list \<Rightarrow> sink \<Rightarrow> pyval list \<times> sink" where
  "debug_stream eng [] s = ([], s)"
| "debug_stream eng (c # cs) s =
     (let normalized_chunk = normalize_chunk c;
          s1 = (if debug eng then debug_log eng ''raw_chunk'' normalized_chunk s else s);
          (rest, s2) = debug_stream eng cs s1
      in (normalized_chunk # rest, s2))"

section \<open>The top-level completion\<close>

text \<open>
  \<^verbatim>\<open>complete(self, lines, line, character, filetype)\<close>. The backend call
  \<^verbatim>\<open>self.client.generate(**payload)\<close> is the parameter \<open>generate\<close>: from the client's
  state and the payload it gives a stream or an exception, and the next state. Only the
  first submission stands inside the \<^verbatim>\<open>try\<close>.
\<close>

definition complete :: "engine \<Rightarrow> ('c \<Rightarrow> pydict \<Rightarrow> (exn + chunk list) \<times> 'c) \<Rightarrow> string list \<Rightarrow> int \<Rightarrow> int \<Rightarrow> string \<Rightarrow> 'c \<Rightarrow> sink \<Rightarrow> (exn + (sink \<Rightarrow> pyval list \<times> sink)) \<times> 'c \<times> sink" where
  "complete eng generate lines line character filetype c s =
    (case build_request_payload eng lines line character filetype False of
       Inl e \<Rightarrow> (Inl e, c, s)
     | Inr payload \<Rightarrow>
         (let s1 = debug_log eng ''payload'' (VDict payload) s
          in case generate c payload of
            (Inr stream, c1) \<Rightarrow> (Inr (debug_stream eng stream), c1, s1)
          | (Inl exc, c1) \<Rightarrow>
              (case exc of Exn kind msg \<Rightarrow>
                 if kind \<noteq> TypeError then (Inl exc, c1, s1)
                 else if \<not> str_contains ''suffix'' msg then (Inl exc, c1, s1)
                 else
                   (case build_request_payload eng lines line character filetype True of
                      Inl e \<Rightarrow> (Inl e, c1, s1)
                    | Inr fallback_payload \<Rightarrow>
                        (let s2 = debug_log eng ''payload_fallback'' (VDict fallback_payload) s1
                         in case generate c1 fallback_payload of
                           (Inr stream, c2) \<Rightarrow> (Inr (debug_stream eng stream), c2, s2)
                         | (Inl exc2, c2) \<Rightarrow> (Inl exc2, c2, s2))))))"

text \<open>
  A backend that also keeps the list of the payloads submitted to it, to count the
  submissions of one \<open>complete\<close>.
\<close>

definition recording :: "('c \<Rightarrow> pydict \<Rightarrow> (exn + chunk list) \<times> 'c) \<Rightarrow> 'c \<times> pydict list \<Rightarrow> pydict \<Rightarrow> (exn + chunk list) \<times> 'c \<times> pydict list" where
  "recording generate ct payload =
    (case ct of (c, sent) \<Rightarrow>
       (case generate c payload of (r, c1) \<Rightarrow> (r, c1, sent @ [payload])))"

section \<open>Notions used to state the properties\<close>

text \<open>The positions at which a non-empty \<open>needle\<close> occurs in \<open>hay\<close>, in increasing order.\<close>

definition occurrences :: "string \<Rightarrow> string \<Rightarrow> nat list" where
  "occurrences needle hay =
    filter (\<lambda>i. take (length needle) (drop i hay) = needle) [0..<length hay]"

text \<open>
  The cursor line after clamping, as both the splitter and the windower compute it (0 for
  the empty document).
\<close>

definition bounded_line_of :: "string list \<Rightarrow> int \<Rightarrow> int" where
  "bounded_line_of lines line = max 0 (min line (int (length lines) - 1))"

text \<open>The number of newline characters at the end of a string.\<close>

definition trailing_newlines :: "string \<Rightarrow> nat" where
  "trailing_newlines s = length (takeWhile (\<lambda>c. c = CHR 0x0A) (rev s))"

text \<open>The string a payload holds under a key, and the prompt of a built payload.\<close>

definition payload_str :: "pydict \<Rightarrow> string \<Rightarrow> string option" where
  "payload_str p k = (case map_of p k of Some (VStr s) \<Rightarrow> Some s | _ \<Rightarrow> None)"

definition prompt_of :: "exn + pydict \<Rightarrow> string option" where
  "prompt_of r = (case r of Inl e \<Rightarrow> None | Inr p \<Rightarrow> payload_str p ''prompt'')"

definition suffix_of :: "exn + pydict \<Rightarrow> string option" where
  "suffix_of r = (case r of Inl e \<Rightarrow> None | Inr p \<Rightarrow> payload_str p ''suffix'')"

text \<open>A normalized chunk that is a dictionary with a string under \<^verbatim>\<open>response\<close>.\<close>

definition has_text_response :: "pyval \<Rightarrow> bool" where
  "has_text_response v =
    (case v of
       VDict d \<Rightarrow> (case map_of d ''response'' of Some (VStr s) \<Rightarrow> True | _ \<Rightarrow> False)
     | _ \<Rightarrow> False)"

text \<open>The payloads one \<open>complete\<close> submits to the backend, in order.\<close>

definition submissions :: "engine \<Rightarrow> ('c \<Rightarrow> pydict \<Rightarrow> (exn + chunk list) \<times> 'c) \<Rightarrow> string list \<Rightarrow> int \<Rightarrow> int \<Rightarrow> string \<Rightarrow> 'c \<Rightarrow> sink \<Rightarrow> pydict list" where
  "submissions eng generate lines line character filetype c s =
    snd (fst (snd (complete eng (recording generate) lines line character filetype (c, []) s)))"

text \<open>
  The engine that \<open>init\<close> builds when no options are given and the environment is empty,
  for the model of \<^verbatim>\<open>payload_debug_demo.py\<close>.
\<close>

definition default_engine :: engine where
  "default_engine =
    \<lparr> model = ''qwen2.5-coder:3b'', options = [], fim_enabled = VBool True,
      fim_mode = VStr ''auto'', context_lines_before = 80, context_lines_after = 40,
      max_prefix_chars = 8000, max_suffix_chars = 3000, debug = False,
      debug_log_file = VStr ''/tmp/ollama-copilot-debug.log'' \<rparr>"

text \<open>
  A backend whose client has no \<^verbatim>\<open>suffix\<close> parameter: a payload with that key raises the
  type error of an unexpected keyword argument; any other payload is answered with one
  chunk. The state counts the calls.
\<close>

definition old_client :: "nat \<Rightarrow> pydict \<Rightarrow> (exn + chunk list) \<times> nat" where
  "old_client n payload =
    (if map_of payload ''suffix'' \<noteq> None
     then (Inl (Exn TypeError ''generate() got an unexpected keyword argument suffix''), Suc n)
     else (Inr [ChunkDict [(''response'', VStr ''x'')]], Suc n))"

section \<open>Facts about the sequence primitives\<close>

lemma py_index_clamped:
  "xs \<noteq> [] \<Longrightarrow> py_index xs (max 0 (min i (int (length xs) - 1)))
     = Inr (xs ! nat (max 0 (min i (int (length xs) - 1))))"
  by (cases xs) (auto simp: py_index_def Let_def)

lemma py_slice_to_nonneg: "0 \<le> b \<Longrightarrow> py_slice xs None (Some b) = take (nat b) xs"
  by (simp add: py_slice_def slice_bound_def Let_def min_def)

lemma py_slice_from_nonneg: "0 \<le> a \<Longrightarrow> py_slice xs (Some a) None = drop (nat a) xs"
  by (simp add: py_slice_def slice_bound_def Let_def min_def)

text \<open>The indentation computed through \<^verbatim>\<open>lstrip\<close> is the leading run of the stripped characters.\<close>

lemma py_slice_indent:
  "py_slice left None (Some (int (length left) - int (length (lstrip cs left))))
     = takeWhile (\<lambda>c. c \<in> set cs) left"
proof -
  let ?P = "\<lambda>c. c \<in> set cs"
  have len: "length left = length (takeWhile ?P left) + length (dropWhile ?P left)"
    by (metis length_append takeWhile_dropWhile_id)
  then have "int (length left) - int (length (lstrip cs left)) = int (length (takeWhile ?P left))"
    by (simp add: lstrip_def)
  then show ?thesis
    by (simp add: py_slice_to_nonneg takeWhile_eq_take [symmetric])
qed

lemma py_join_append:
  "xs \<noteq> [] \<Longrightarrow> ys \<noteq> [] \<Longrightarrow> py_join sep (xs @ ys) = py_join sep xs @ sep @ py_join sep ys"
proof (induction sep xs rule: py_join.induct)
  case (2 sep x)
  then show ?case by (cases ys) simp_all
qed simp_all

lemma py_join_empty_iff:
  "sep \<noteq> [] \<Longrightarrow> py_join sep xs = [] \<longleftrightarrow> xs = [] \<or> xs = [[]]"
  by (induction sep xs rule: py_join.induct) simp_all

section \<open>The cursor splitter: totality, clamping and reconstruction\<close>

text \<open>
  The splitter never takes the error branch, and its result is the one written with
  \<^const>\<open>take\<close> and \<^const>\<open>drop\<close> at the clamped line and character.
\<close>

lemma split_prefix_suffix_eq:
  "split_prefix_suffix lines line character =
    (let bl = (if lines = [] then 0 else max 0 (min line (int (length lines) - 1)));
         cur = (if lines = [] then [] else lines ! nat bl);
         bc = max 0 (min character (int (length cur)));
         left = take (nat bc) cur;
         right = drop (nat bc) cur;
         before = py_join nl (take (nat bl) lines)
     in Inr (if before \<noteq> [] then before @ nl @ left else left,
             if bl + 1 < int (length lines)
             then right @ nl @ py_join nl (drop (nat bl + 1) lines) else right,
             takeWhile (\<lambda>c. c = CHR '' '' \<or> c = tab) left))"
proof (cases "lines = []")
  case True
  then show ?thesis
    by (simp add: split_prefix_suffix_def py_slice_def slice_bound_def lstrip_def Let_def)
next
  case False
  have n: "nat (max 0 (min line (int (length lines) - 1)) + 1)
      = nat (max 0 (min line (int (length lines) - 1))) + 1"
    by simp
  have P: "(\<lambda>c. c \<in> set [CHR '' '', tab]) = (\<lambda>c. c = CHR '' '' \<or> c = tab)"
    by auto
  show ?thesis
    using False
    unfolding split_prefix_suffix_def Let_def
    by (simp add: py_index_clamped py_slice_to_nonneg py_slice_from_nonneg py_slice_indent P n
        del: length_take max.absorb1 max.absorb2 max.absorb3 max.absorb4
          min.absorb1 min.absorb2 min.absorb3 min.absorb4)
qed

lemma split_prefix_suffix_total:
  "\<exists>pre suf ind. split_prefix_suffix lines line character = Inr (pre, suf, ind)"
  unfolding split_prefix_suffix_eq Let_def by (intro exI) (rule refl)

text \<open>
  Prefix and suffix give the document back, except when the cursor is on the second line
  and the first line is empty: there the prefix lacks the newline that ends the first
  line.
\<close>

lemma split_prefix_suffix_reconstruction:
  assumes "split_prefix_suffix lines line character = Inr (pre, suf, ind)"
  shows "(if max 0 (min line (int (length lines) - 1)) = 1 \<and> lines ! 0 = []
          then nl @ pre @ suf else pre @ suf) = py_join nl lines"
proof (cases "lines = []")
  case True
  with assms show ?thesis
    by (simp add: split_prefix_suffix_eq Let_def)
next
  case False
  define bl where "bl = nat (max 0 (min line (int (length lines) - 1)))"
  define cur where "cur = lines ! bl"
  define bc where "bc = nat (max 0 (min character (int (length cur))))"
  define A where "A = take bl lines"
  define D where "D = drop (Suc bl) lines"
  have bl_lt: "bl < length lines"
    using False by (cases lines) (auto simp: bl_def max_def min_def)
  have int_bl: "max 0 (min line (int (length lines) - 1)) = int bl"
    by (simp add: bl_def)
  have doc: "lines = A @ cur # D"
    unfolding A_def D_def cur_def using bl_lt by (rule id_take_nth_drop)
  have cur: "take bc cur @ drop bc cur = cur"
    by simp
  have D_iff: "int bl + 1 < int (length lines) \<longleftrightarrow> D \<noteq> []"
    using bl_lt by (auto simp: D_def)
  have "split_prefix_suffix lines line character =
      Inr (if py_join nl A \<noteq> [] then py_join nl A @ nl @ take bc cur else take bc cur,
           if D \<noteq> [] then drop bc cur @ nl @ py_join nl D else drop bc cur,
           takeWhile (\<lambda>c. c = CHR '' '' \<or> c = tab) (take bc cur))"
    unfolding split_prefix_suffix_eq Let_def
    using False
    by (simp add: int_bl A_def D_def cur_def bc_def D_iff [symmetric]
        del: max.absorb1 max.absorb2 max.absorb3 max.absorb4
          min.absorb1 min.absorb2 min.absorb3 min.absorb4)
  with assms
  have pre: "pre = (if py_join nl A \<noteq> [] then py_join nl A @ nl @ take bc cur else take bc cur)"
    and suf: "suf = (if D \<noteq> [] then drop bc cur @ nl @ py_join nl D else drop bc cur)"
    by simp_all
  have tail: "py_join nl (cur # D) = take bc cur @ suf"
  proof (cases D)
    case Nil
    then show ?thesis by (simp add: suf)
  next
    case (Cons d ds)
    then show ?thesis using cur by (simp add: suf del: append_take_drop_id)
  qed
  have blank: "bl = 1 \<and> lines ! 0 = [] \<longleftrightarrow> A = [[]]"
  proof
    assume "bl = 1 \<and> lines ! 0 = []"
    then show "A = [[]]"
      using bl_lt by (cases lines) (simp_all add: A_def)
  next
    assume a: "A = [[]]"
    then have "length A = 1" by simp
    then have "bl = 1" using bl_lt by (simp add: A_def)
    moreover have "lines ! 0 = []" using doc a by simp
    ultimately show "bl = 1 \<and> lines ! 0 = []" by simp
  qed
  show ?thesis
  proof (cases "A = []")
    case True
    then have "bl \<noteq> 1" using False by (auto simp: A_def)
    moreover have "py_join nl lines = py_join nl (cur # D)" using doc True by simp
    moreover have "pre = take bc cur" using True by (simp add: pre)
    ultimately show ?thesis
      unfolding int_bl using tail by simp
  next
    case nonempty: False
    have join: "py_join nl lines = py_join nl A @ nl @ py_join nl (cur # D)"
      using py_join_append [of A "cur # D" nl] nonempty doc by simp
    show ?thesis
    proof (cases "A = [[]]")
      case True
      then have "pre = take bc cur" by (simp add: pre)
      then show ?thesis
        unfolding int_bl using True blank join tail by simp
    next
      case False
      then have "py_join nl A \<noteq> []"
        using nonempty by (simp add: py_join_empty_iff)
      then have "pre = py_join nl A @ nl @ take bc cur" by (simp add: pre)
      then show ?thesis
        unfolding int_bl using False blank join tail by simp
    qed
  qed
qed

text \<open>
  Claim C1: for every document and cursor, prefix followed by suffix is the document's
  lines joined by newlines. The code departs from this on the document with an empty
  first line and the cursor at the start of the second line: the splitter returns an
  empty prefix and the whole second line as suffix, while the joined document starts
  with a newline.
\<close>

theorem split_prefix_suffix_blank_first_line:
  "split_prefix_suffix ['''', ''abc''] 1 0 = Inr ('''', ''abc'', '''')
   \<and> py_join nl ['''', ''abc''] = nl @ ''abc''"
  by code_simp

text \<open>
  Claim C7: for every document and all integers \<open>line\<close> and \<open>character\<close>, in range or
  not, the splitter returns a result and raises nothing; the result is computed from the
  line clamped into \<open>[0, len(lines) - 1]\<close> (0 and an empty current line for the
  empty document) and from the character clamped into \<open>[0, len(current_line)]\<close>, and
  it is the result at the clamped cursor.
\<close>

theorem split_prefix_suffix_total_clamped:
  "(let bl = (if lines = [] then 0 else max 0 (min line (int (length lines) - 1)));
        cur = (if lines = [] then [] else lines ! nat bl);
        bc = max 0 (min character (int (length cur)));
        left = take (nat bc) cur;
        right = drop (nat bc) cur;
        before = py_join nl (take (nat bl) lines)
    in 0 \<le> bl \<and> bl \<le> max 0 (int (length lines) - 1)
     \<and> 0 \<le> bc \<and> bc \<le> int (length cur)
     \<and> split_prefix_suffix lines line character =
         Inr (if before \<noteq> [] then before @ nl @ left else left,
              if bl + 1 < int (length lines)
              then right @ nl @ py_join nl (drop (nat bl + 1) lines) else right,
              takeWhile (\<lambda>c. c = CHR '' '' \<or> c = tab) left)
     \<and> split_prefix_suffix lines line character = split_prefix_suffix lines bl bc)"
proof -
  define bl where "bl = (if lines = [] then 0 else max 0 (min line (int (length lines) - 1)))"
  define cur where "cur = (if lines = [] then [] else lines ! nat bl)"
  define bc where "bc = max 0 (min character (int (length cur)))"
  have bl_range: "0 \<le> bl" "bl \<le> max 0 (int (length lines) - 1)"
    by (auto simp: bl_def)
  have bc_range: "0 \<le> bc" "bc \<le> int (length cur)"
    by (auto simp: bc_def)
  have bl_idem: "(if lines = [] then 0 else max 0 (min bl (int (length lines) - 1))) = bl"
    by (auto simp: bl_def)
  have bc_idem: "max 0 (min bc (int (length cur))) = bc"
    by (auto simp: bc_def)
  have e1: "split_prefix_suffix lines line character =
      Inr (if py_join nl (take (nat bl) lines) \<noteq> []
           then py_join nl (take (nat bl) lines) @ nl @ take (nat bc) cur else take (nat bc) cur,
           if bl + 1 < int (length lines)
           then drop (nat bc) cur @ nl @ py_join nl (drop (nat bl + 1) lines) else drop (nat bc) cur,
           takeWhile (\<lambda>c. c = CHR '' '' \<or> c = tab) (take (nat bc) cur))"
    unfolding split_prefix_suffix_eq [of lines line character] Let_def bl_def [symmetric]
      cur_def [symmetric] bc_def [symmetric] ..
  have e2: "split_prefix_suffix lines bl bc = split_prefix_suffix lines line character"
    unfolding e1
    unfolding split_prefix_suffix_eq [of lines bl bc] Let_def bl_idem cur_def [symmetric] bc_idem ..
  show ?thesis
    unfolding Let_def bl_def [symmetric] cur_def [symmetric] bc_def [symmetric]
    using bl_range bc_range e1 e2 by simp
qed

section \<open>The context windower and the request builder return\<close>

lemma default_engine_init:
  "init parse Map.empty ''qwen2.5-coder:3b'' None = Inr default_engine"
  by (simp add: init_def dict_pop_def getenv_def default_engine_def)

lemma py_slice_between_nonneg:
  "0 \<le> a \<Longrightarrow> 0 \<le> b \<Longrightarrow> py_slice xs (Some a) (Some b) = drop (nat a) (take (nat b) xs)"
  by (simp add: py_slice_def slice_bound_def Let_def min_def)

text \<open>
  The windower reads the document only through the lines before the clamped cursor line
  and that line itself.
\<close>

lemma centered_prefix_eq:
  "centered_prefix eng lines line character filetype indent =
    (let ls = (if lines = [] then [[]] else lines);
         bl = nat (bounded_line_of lines line);
         cur = ls ! bl;
         bc = nat (max 0 (min character (int (length cur))));
         before_lines = drop (nat (max 0 (int bl - context_lines_before eng))) (take bl ls);
         before_text0 = py_join nl before_lines;
         before_text = (if int (length before_text0) > max_prefix_chars eng
                        then py_slice before_text0 (Some (- max_prefix_chars eng)) None
                        else before_text0)
     in Inr (instruction_block filetype indent before_text (take bc cur) (drop bc cur)))"
proof -
  define ls where "ls = (if lines = [] then [[]] else lines)"
  have ne: "ls \<noteq> []" by (simp add: ls_def)
  have bl: "max 0 (min line (int (length ls) - 1)) = bounded_line_of lines line"
    by (auto simp: ls_def bounded_line_of_def)
  have nn: "0 \<le> bounded_line_of lines line"
    by (simp add: bounded_line_of_def)
  have idx: "py_index ls (bounded_line_of lines line) = Inr (ls ! nat (bounded_line_of lines line))"
    using py_index_clamped [OF ne, of line] by (simp only: bl)
  show ?thesis
    unfolding centered_prefix_def Let_def ls_def [symmetric] bl idx
    using nn
    by (simp add: py_slice_to_nonneg py_slice_from_nonneg py_slice_between_nonneg
        del: length_take max.absorb1 max.absorb2 max.absorb3 max.absorb4
          min.absorb1 min.absorb2 min.absorb3 min.absorb4)
qed

lemma centered_prefix_total:
  "\<exists>block. centered_prefix eng lines line character filetype indent = Inr block"
  by (simp add: centered_prefix_eq Let_def)

lemma build_request_payload_total:
  "\<exists>p. build_request_payload eng lines line character filetype force = Inr p"
proof -
  obtain pre suf ind where s: "split_prefix_suffix lines line character = Inr (pre, suf, ind)"
    using split_prefix_suffix_total by blast
  obtain block where c: "centered_prefix eng lines line character filetype ind = Inr block"
    using centered_prefix_total by blast
  show ?thesis
    by (simp add: build_request_payload_def s c Let_def)
qed

section \<open>The strategy of the request builder\<close>

text \<open>
  Claim C2: every call of the request builder returns one payload, built by exactly one of
  three strategies. The native template-FIM branch is taken iff \<open>fim_enabled\<close> is
  true, \<open>force_manual_fim\<close> is false and \<open>fim_mode\<close> is \<open>auto\<close> or \<open>template\<close>;
  the payload has a \<open>suffix\<close> key iff that branch is taken; otherwise the prompt is
  the manual-FIM encoding when \<open>fim_enabled\<close> is true, and the windowed instruction
  block followed by a newline when it is false.
\<close>

theorem build_request_payload_strategy:
  "\<exists>pre suf ind block p.
      split_prefix_suffix lines line character = Inr (pre, suf, ind)
    \<and> centered_prefix eng lines line character filetype ind = Inr block
    \<and> build_request_payload eng lines line character filetype force = Inr p
    \<and> (use_template_fim eng force \<longleftrightarrow>
         truthy (fim_enabled eng) \<and> \<not> force
         \<and> (fim_mode eng = VStr ''auto'' \<or> fim_mode eng = VStr ''template''))
    \<and> (''suffix'' \<in> dict_keys p \<longleftrightarrow> use_template_fim eng force)
    \<and> (use_template_fim eng force \<longrightarrow>
         p = [(''model'', VStr (model eng)), (''stream'', VBool True),
              (''options'', VDict (options eng)),
              (''prompt'', VStr (py_slice pre (Some (- max_prefix_chars eng)) None)),
              (''suffix'', VStr (py_slice suf None (Some (max_suffix_chars eng))))])
    \<and> (\<not> use_template_fim eng force \<and> truthy (fim_enabled eng) \<longrightarrow>
         p = [(''model'', VStr (model eng)), (''stream'', VBool True),
              (''options'', VDict (options eng)),
              (''prompt'', VStr (manual_fim_prompt eng
                                  (py_slice pre (Some (- max_prefix_chars eng)) None) suf))])
    \<and> (\<not> truthy (fim_enabled eng) \<longrightarrow>
         p = [(''model'', VStr (model eng)), (''stream'', VBool True),
              (''options'', VDict (options eng)),
              (''prompt'', VStr (block @ nl))])"
proof -
  obtain pre suf ind where s: "split_prefix_suffix lines line character = Inr (pre, suf, ind)"
    using split_prefix_suffix_total by blast
  obtain block where c: "centered_prefix eng lines line character filetype ind = Inr block"
    using centered_prefix_total by blast
  let ?base = "[(''model'', VStr (model eng)), (''stream'', VBool True),
                (''options'', VDict (options eng))]"
  let ?p = "if use_template_fim eng force
            then ?base @ [(''prompt'', VStr (py_slice pre (Some (- max_prefix_chars eng)) None)),
                          (''suffix'', VStr (py_slice suf None (Some (max_suffix_chars eng))))]
            else if truthy (fim_enabled eng)
            then ?base @ [(''prompt'', VStr (manual_fim_prompt eng
                            (py_slice pre (Some (- max_prefix_chars eng)) None) suf))]
            else ?base @ [(''prompt'', VStr (block @ nl))]"
  have b: "build_request_payload eng lines line character filetype force = Inr ?p"
    by (simp add: build_request_payload_def s c Let_def)
  have t: "use_template_fim eng force \<Longrightarrow> truthy (fim_enabled eng)"
    by (simp add: use_template_fim_def)
  have k: "''suffix'' \<in> dict_keys ?p \<longleftrightarrow> use_template_fim eng force"
    by (simp add: dict_keys_def)
  have u: "use_template_fim eng force \<longleftrightarrow>
         truthy (fim_enabled eng) \<and> \<not> force
         \<and> (fim_mode eng = VStr ''auto'' \<or> fim_mode eng = VStr ''template'')"
    by (simp add: use_template_fim_def)
  show ?thesis
    apply (rule exI [of _ pre], rule exI [of _ suf], rule exI [of _ ind],
        rule exI [of _ block], rule exI [of _ ?p])
    apply (intro conjI)
           apply (rule s)
          apply (rule c)
         apply (rule b)
        apply (rule u)
       apply (rule k)
    using t by simp_all
qed

theorem build_request_payload_strategy_witness:
  "prompt_of (build_request_payload default_engine [''ab'', ''cd''] 0 1 '''' False) = Some ''a''
   \<and> suffix_of (build_request_payload default_engine [''ab'', ''cd''] 0 1 '''' False)
       = Some (''b'' @ nl @ ''cd'')
   \<and> prompt_of (build_request_payload default_engine [''ab'', ''cd''] 0 1 '''' True)
       = Some (''<|fim_prefix|>a<|fim_suffix|>b'' @ nl @ ''cd<|fim_middle|>'')
   \<and> suffix_of (build_request_payload default_engine [''ab'', ''cd''] 0 1 '''' True) = None"
proof -
  have s: "split_prefix_suffix [''ab'', ''cd''] 0 1 = Inr (''a'', ''b'' @ nl @ ''cd'', [])"
    by code_simp
  show ?thesis
    using build_request_payload_strategy [of "[''ab'', ''cd'']" 0 1 default_engine "''''" False]
      build_request_payload_strategy [of "[''ab'', ''cd'']" 0 1 default_engine "''''" True]
    by (auto simp: s prompt_of_def suffix_of_def payload_str_def manual_fim_prompt_def
        use_template_fim_def default_engine_def py_slice_def slice_bound_def)
qed

section \<open>The bounds of the native template-FIM payload\<close>

lemma length_py_slice_last:
  "0 < n \<Longrightarrow> int (length (py_slice xs (Some (- n)) None)) \<le> n"
  by (auto simp: py_slice_def slice_bound_def Let_def)

lemma length_py_slice_first:
  "0 \<le> n \<Longrightarrow> int (length (py_slice xs None (Some n))) \<le> n"
  by (auto simp: py_slice_def slice_bound_def Let_def)

lemma native_fim_bounds:
  assumes "use_template_fim eng force"
    and "0 < max_prefix_chars eng" and "0 \<le> max_suffix_chars eng"
  shows "\<exists>p s. prompt_of (build_request_payload eng lines line character filetype force) = Some p
      \<and> suffix_of (build_request_payload eng lines line character filetype force) = Some s
      \<and> int (length p) \<le> max_prefix_chars eng \<and> int (length s) \<le> max_suffix_chars eng"
proof -
  obtain pre suf ind where s: "split_prefix_suffix lines line character = Inr (pre, suf, ind)"
    using split_prefix_suffix_total by blast
  obtain block where c: "centered_prefix eng lines line character filetype ind = Inr block"
    using centered_prefix_total by blast
  have "int (length (py_slice pre (Some (- max_prefix_chars eng)) None)) \<le> max_prefix_chars eng"
    using assms(2) by (rule length_py_slice_last)
  moreover have "int (length (py_slice suf None (Some (max_suffix_chars eng)))) \<le> max_suffix_chars eng"
    using assms(3) by (rule length_py_slice_first)
  ultimately show ?thesis
    using assms
    by (simp add: build_request_payload_def s c Let_def prompt_of_def suffix_of_def payload_str_def)
qed

text \<open>
  Claim C4: a payload of the native template-FIM branch has a prompt of at most
  \<open>max_prefix_chars\<close> characters and a suffix of at most \<open>max_suffix_chars\<close>
  characters. With \<open>max_prefix_chars = 0\<close> the slice \<^verbatim>\<open>prefix[-0:]\<close> is the whole
  prefix: the engine below sends the three characters before the cursor although its
  bound is zero. For a positive \<open>max_prefix_chars\<close> and a non-negative
  \<open>max_suffix_chars\<close> the bounds hold, as \<open>native_fim_bounds\<close> shows.
\<close>

theorem native_fim_prompt_unbounded_at_zero:
  "use_template_fim (default_engine\<lparr>max_prefix_chars := 0\<rparr>) False
   \<and> prompt_of (build_request_payload (default_engine\<lparr>max_prefix_chars := 0\<rparr>)
        [''abc''] 0 3 '''' False) = Some ''abc''"
  by code_simp

section \<open>The pass-through options\<close>

lemma dict_pop_keys:
  "dict_pop d k v = (x, d') \<Longrightarrow> dict_keys d' = dict_keys d - {k}"
  by (auto simp: dict_pop_def dict_keys_def map_of_eq_None_iff split: option.splits)

lemma init_options:
  assumes "init parse env m opts = Inr eng"
  shows "dict_keys (options eng) =
     dict_keys (case opts of None \<Rightarrow> [] | Some d \<Rightarrow> d) - set recognized_keys"
proof -
  define o0 where "o0 = (case opts of None \<Rightarrow> [] | Some d \<Rightarrow> if d \<noteq> [] then d else [])"
  have o0: "o0 = (case opts of None \<Rightarrow> [] | Some d \<Rightarrow> d)"
    by (simp add: o0_def split: option.splits)
  obtain fe o1 where p1: "dict_pop o0 ''fim_enabled'' (VBool True) = (fe, o1)"
    by (cases "dict_pop o0 ''fim_enabled'' (VBool True)")
  obtain fm o2 where p2: "dict_pop o1 ''fim_mode'' (VStr ''auto'') = (fm, o2)"
    by (cases "dict_pop o1 ''fim_mode'' (VStr ''auto'')")
  obtain clb o3 where p3: "dict_pop o2 ''context_lines_before'' (VInt 80) = (clb, o3)"
    by (cases "dict_pop o2 ''context_lines_before'' (VInt 80)")
  obtain cla o4 where p4: "dict_pop o3 ''context_lines_after'' (VInt 40) = (cla, o4)"
    by (cases "dict_pop o3 ''context_lines_after'' (VInt 40)")
  obtain mpc o5 where p5: "dict_pop o4 ''max_prefix_chars'' (VInt 8000) = (mpc, o5)"
    by (cases "dict_pop o4 ''max_prefix_chars'' (VInt 8000)")
  obtain msc o6 where p6: "dict_pop o5 ''max_suffix_chars'' (VInt 3000) = (msc, o6)"
    by (cases "dict_pop o5 ''max_suffix_chars'' (VInt 3000)")
  obtain dbg o7 where p7: "dict_pop o6 ''debug'' (VBool False) = (dbg, o7)"
    by (cases "dict_pop o6 ''debug'' (VBool False)")
  obtain dlf o8 where p8: "dict_pop o7 ''debug_log_file'' VNone = (dlf, o8)"
    by (cases "dict_pop o7 ''debug_log_file'' VNone")
  have "options eng = o8"
    using assms
    unfolding init_def o0_def [symmetric] Let_def p1 p2 p3 p4 p5 p6 p7 p8 prod.case
    by (auto split: sum.splits)
  moreover have "dict_keys o8 = dict_keys o0 - set recognized_keys"
    using dict_pop_keys [OF p1] dict_pop_keys [OF p2] dict_pop_keys [OF p3] dict_pop_keys [OF p4]
      dict_pop_keys [OF p5] dict_pop_keys [OF p6] dict_pop_keys [OF p7] dict_pop_keys [OF p8]
    unfolding recognized_keys_def by auto
  ultimately show ?thesis
    by (simp add: o0)
qed

lemma build_request_payload_options:
  "\<exists>p. build_request_payload eng lines line character filetype force = Inr p
     \<and> map_of p ''options'' = Some (VDict (options eng))"
proof -
  obtain pre suf ind where s: "split_prefix_suffix lines line character = Inr (pre, suf, ind)"
    using split_prefix_suffix_total by blast
  obtain block where c: "centered_prefix eng lines line character filetype ind = Inr block"
    using centered_prefix_total by blast
  show ?thesis
    by (simp add: build_request_payload_def s c Let_def)
qed

text \<open>
  Claim C10: after a construction that succeeds, the options of the engine contain none of
  the keys \<^verbatim>\<open>__init__\<close> recognizes, and every payload the engine builds carries these
  options under \<open>options\<close>. The builder does not change the engine, so this holds at
  every call.
\<close>

theorem init_options_exclude_recognized_keys:
  assumes "init parse env m opts = Inr eng"
  shows "(\<forall>k \<in> set recognized_keys. k \<notin> dict_keys (options eng))
    \<and> (\<forall>lines line character filetype force.
         \<exists>p. build_request_payload eng lines line character filetype force = Inr p
            \<and> map_of p ''options'' = Some (VDict (options eng)))"
  using init_options [OF assms] build_request_payload_options by auto

theorem init_options_exclude_recognized_keys_witness:
  "init (\<lambda>s. None) Map.empty ''qwen2.5-coder:3b''
     (Some [(''num_predict'', VInt 128), (''num_ctx'', VInt 8192), (''fim_enabled'', VBool True),
            (''fim_mode'', VStr ''auto''), (''context_lines_before'', VInt 20),
            (''context_lines_after'', VInt 20), (''max_prefix_chars'', VInt 4000),
            (''max_suffix_chars'', VInt 2000)])
    = Inr (default_engine\<lparr>options := [(''num_predict'', VInt 128), (''num_ctx'', VInt 8192)],
             context_lines_before := 20, context_lines_after := 20,
             max_prefix_chars := 4000, max_suffix_chars := 2000\<rparr>)
   \<and> ''fim_enabled'' \<notin> dict_keys [(''num_predict'', VInt 128), (''num_ctx'', VInt 8192)]
   \<and> ''max_suffix_chars'' \<notin> dict_keys [(''num_predict'', VInt 128), (''num_ctx'', VInt 8192)]
   \<and> (\<exists>p. build_request_payload
           (default_engine\<lparr>options := [(''num_predict'', VInt 128), (''num_ctx'', VInt 8192)],
             context_lines_before := 20, context_lines_after := 20,
             max_prefix_chars := 4000, max_suffix_chars := 2000\<rparr>)
           [''- ''] 0 2 ''markdown'' False = Inr p
        \<and> map_of p ''options''
            = Some (VDict [(''num_predict'', VInt 128), (''num_ctx'', VInt 8192)]))"
proof -
  let ?opts = "Some [(''num_predict'', VInt 128), (''num_ctx'', VInt 8192),
            (''fim_enabled'', VBool True),
            (''fim_mode'', VStr ''auto''), (''context_lines_before'', VInt 20),
            (''context_lines_after'', VInt 20), (''max_prefix_chars'', VInt 4000),
            (''max_suffix_chars'', VInt 2000)]"
  let ?eng = "default_engine\<lparr>options := [(''num_predict'', VInt 128), (''num_ctx'', VInt 8192)],
             context_lines_before := 20, context_lines_after := 20,
             max_prefix_chars := 4000, max_suffix_chars := 2000\<rparr>"
  have i: "init (\<lambda>s. None) Map.empty ''qwen2.5-coder:3b'' ?opts = Inr ?eng"
    by code_simp
  have o: "options ?eng = [(''num_predict'', VInt 128), (''num_ctx'', VInt 8192)]"
    by simp
  show ?thesis
    using init_options_exclude_recognized_keys [OF i] i
    unfolding o by (simp add: recognized_keys_def)
qed

section \<open>The plain windowed prompt\<close>

lemma str_contains_here: "str_contains m (m @ b)"
proof (cases "m @ b")
  case Nil
  then show ?thesis by simp
next
  case (Cons a list)
  have "take (length m) (m @ b) = m" by simp
  then show ?thesis unfolding Cons by simp
qed

lemma str_contains_later: "str_contains m ys \<Longrightarrow> str_contains m (xs @ ys)"
  by (induction xs) auto

text \<open>\<open>str_contains\<close> is the substring relation.\<close>

lemma str_contains_iff: "str_contains m s \<longleftrightarrow> (\<exists>a b. s = a @ m @ b)"
proof
  assume "str_contains m s"
  then show "\<exists>a b. s = a @ m @ b"
  proof (induction s)
    case Nil
    then show ?case by simp
  next
    case (Cons c cs)
    show ?case
    proof (cases "take (length m) (c # cs) = m")
      case True
      then have "c # cs = [] @ m @ drop (length m) (c # cs)"
        using append_take_drop_id [of "length m" "c # cs"] by simp
      then show ?thesis by blast
    next
      case False
      with Cons.prems have "str_contains m cs" by simp
      then obtain a b where "cs = a @ m @ b" using Cons.IH by blast
      then have "c # cs = (c # a) @ m @ b" by simp
      then show ?thesis by blast
    qed
  qed
next
  assume "\<exists>a b. s = a @ m @ b"
  then show "str_contains m s"
    using str_contains_later [OF str_contains_here] by blast
qed

lemma instruction_block_markers:
  "str_contains ''[PREFIX_BEFORE_CURSOR]'' (instruction_block ft ind bt lp ls @ x)"
  "str_contains ''[CURRENT_LINE_PREFIX]'' (instruction_block ft ind bt lp ls @ x)"
  "str_contains ''[CURRENT_LINE_SUFFIX]'' (instruction_block ft ind bt lp ls @ x)"
  "str_contains ''[INSERT_AT_CURSOR]'' (instruction_block ft ind bt lp ls @ x)"
  unfolding instruction_block_def append_assoc
  by (rule str_contains_here | rule str_contains_later)+

lemma instruction_block_end:
  "\<exists>body. instruction_block ft ind bt lp ls = body @ ''[INSERT_AT_CURSOR]'' @ nl"
  unfolding instruction_block_def
  by (metis append_assoc)

lemma trailing_newlines_after_marker:
  "trailing_newlines (body @ ''[INSERT_AT_CURSOR]'' @ nl @ nl) = 2"
  by (simp add: trailing_newlines_def)

lemma occurrences_iff:
  "i \<in> set (occurrences m s) \<longleftrightarrow> i < length s \<and> take (length m) (drop i s) = m"
  by (auto simp: occurrences_def)

lemma insert_marker_is_last:
  assumes "i \<in> set (occurrences ''[INSERT_AT_CURSOR]'' (body @ ''[INSERT_AT_CURSOR]'' @ nl @ nl))"
  shows "i \<le> length body"
proof (rule ccontr)
  let ?m = "''[INSERT_AT_CURSOR]''"
  assume "\<not> i \<le> length body"
  then obtain j where j: "i = length body + Suc j"
    by (metis add_Suc_right less_imp_Suc_add not_le_imp_less)
  have d: "drop i (body @ r) = drop (Suc j) r" for r :: string
    by (simp add: j)
  have t: "take (length ?m) (drop (Suc j) (?m @ nl @ nl)) = ?m"
    using assms unfolding occurrences_iff d by blast
  consider "j = 0" | "j = 1" | "2 \<le> j" by linarith
  then show False
  proof cases
    case 1
    with t show False by simp
  next
    case 2
    with t show False by simp
  next
    case 3
    have "length (take (length ?m) (drop (Suc j) (?m @ nl @ nl))) = length ?m"
      using t by simp
    with 3 show False by simp
  qed
qed

text \<open>
  Claim C6, as amended: with \<open>fim_enabled\<close> false the prompt of the payload is the
  instruction block followed by one more newline. The block already ends with a newline
  after \<open>[INSERT_AT_CURSOR]\<close>, so the prompt ends with exactly two newlines; nothing
  else follows the final \<open>[INSERT_AT_CURSOR]\<close> marker, and the four section markers
  occur in the prompt.
\<close>

theorem plain_prompt_two_trailing_newlines:
  assumes "\<not> truthy (fim_enabled eng)"
  shows "\<exists>p body.
      prompt_of (build_request_payload eng lines line character filetype force) = Some p
    \<and> p = body @ ''[INSERT_AT_CURSOR]'' @ nl @ nl
    \<and> trailing_newlines p = 2
    \<and> length body \<in> set (occurrences ''[INSERT_AT_CURSOR]'' p)
    \<and> (\<forall>i \<in> set (occurrences ''[INSERT_AT_CURSOR]'' p). i \<le> length body)
    \<and> str_contains ''[PREFIX_BEFORE_CURSOR]'' p
    \<and> str_contains ''[CURRENT_LINE_PREFIX]'' p
    \<and> str_contains ''[CURRENT_LINE_SUFFIX]'' p
    \<and> str_contains ''[INSERT_AT_CURSOR]'' p"
proof -
  obtain pre suf ind where s: "split_prefix_suffix lines line character = Inr (pre, suf, ind)"
    using split_prefix_suffix_total by blast
  obtain ft i bt lp ls where c: "centered_prefix eng lines line character filetype ind
      = Inr (instruction_block ft i bt lp ls)"
    by (simp add: centered_prefix_eq Let_def)
  obtain body where b: "instruction_block ft i bt lp ls = body @ ''[INSERT_AT_CURSOR]'' @ nl"
    using instruction_block_end by blast
  let ?p = "instruction_block ft i bt lp ls @ nl"
  have nt: "\<not> use_template_fim eng force"
    using assms by (simp add: use_template_fim_def)
  have p: "prompt_of (build_request_payload eng lines line character filetype force) = Some ?p"
    using assms nt
    by (simp add: build_request_payload_def s c Let_def prompt_of_def payload_str_def)
  have e: "?p = body @ ''[INSERT_AT_CURSOR]'' @ nl @ nl"
    by (simp add: b)
  have o: "length body \<in> set (occurrences ''[INSERT_AT_CURSOR]'' ?p)"
    unfolding e occurrences_iff by simp
  have l: "\<forall>i \<in> set (occurrences ''[INSERT_AT_CURSOR]'' ?p). i \<le> length body"
    unfolding e using insert_marker_is_last by blast
  have t: "trailing_newlines ?p = 2"
    unfolding e by (rule trailing_newlines_after_marker)
  show ?thesis
    using p e o l t instruction_block_markers [of ft i bt lp ls nl] by blast
qed

theorem plain_prompt_two_trailing_newlines_witness:
  "\<not> truthy (fim_enabled (default_engine\<lparr>fim_enabled := VBool False\<rparr>))
   \<and> (\<exists>p body. prompt_of (build_request_payload (default_engine\<lparr>fim_enabled := VBool False\<rparr>)
                  [''a'', ''  bc''] 1 3 ''lua'' False) = Some p
        \<and> p = body @ ''[INSERT_AT_CURSOR]'' @ nl @ nl
        \<and> trailing_newlines p = 2
        \<and> str_contains ''[PREFIX_BEFORE_CURSOR]'' p)"
proof -
  have h: "\<not> truthy (fim_enabled (default_engine\<lparr>fim_enabled := VBool False\<rparr>))"
    by simp
  show ?thesis
    using h plain_prompt_two_trailing_newlines [OF h, of "[''a'', ''  bc'']" 1 3 "''lua''" False]
    by blast
qed

text \<open>
  Claim C6 as first stated asks for exactly one trailing newline. On a two-line document
  with \<open>fim_enabled\<close> false the prompt ends with two.
\<close>

theorem plain_prompt_not_one_trailing_newline:
  "map_option trailing_newlines
     (prompt_of (build_request_payload (default_engine\<lparr>fim_enabled := VBool False\<rparr>)
        [''a'', ''  bc''] 1 3 ''lua'' False)) = Some 2"
  by code_simp

section \<open>The windower does not read the lines after the cursor\<close>

lemma bounded_line_of_lt:
  "lines \<noteq> [] \<Longrightarrow> nat (bounded_line_of lines line) < length lines"
  by (cases lines) (auto simp: bounded_line_of_def max_def min_def)

lemma centered_prefix_same_window:
  assumes bl: "bounded_line_of l1 line = bounded_line_of l2 line"
    and tk: "take (nat (bounded_line_of l1 line) + 1) l1 = take (nat (bounded_line_of l1 line) + 1) l2"
  shows "centered_prefix eng l1 line character filetype indent
       = centered_prefix eng l2 line character filetype indent"
proof (cases "l1 = []")
  case True
  then have "l2 = []" using tk by simp
  with True show ?thesis by simp
next
  case False
  define n where "n = nat (bounded_line_of l1 line)"
  have ne2: "l2 \<noteq> []"
    using False tk by auto
  have n1: "n < length l1"
    unfolding n_def using False by (rule bounded_line_of_lt)
  have n2: "n < length l2"
    unfolding n_def bl using ne2 by (rule bounded_line_of_lt)
  have tk': "take (Suc n) l1 = take (Suc n) l2"
    using tk by (simp add: n_def)
  have "take n (take (Suc n) l1) = take n (take (Suc n) l2)"
    by (simp only: tk')
  then have before: "take n l1 = take n l2"
    by (simp add: min_def)
  have "take (Suc n) l1 ! n = take (Suc n) l2 ! n"
    by (simp only: tk')
  then have cur: "l1 ! n = l2 ! n"
    by simp
  show ?thesis
    unfolding centered_prefix_eq Let_def bl [symmetric] n_def [symmetric]
    using False ne2 by (simp add: before cur)
qed

text \<open>Of the engine the windower reads two fields only.\<close>

lemma centered_prefix_reads:
  assumes c: "context_lines_before e1 = context_lines_before e2"
    and m: "max_prefix_chars e1 = max_prefix_chars e2"
  shows "centered_prefix e1 lines line character filetype indent
       = centered_prefix e2 lines line character filetype indent"
  unfolding centered_prefix_def c m ..

lemma before_lines_window:
  "drop (nat (max 0 (int n - c))) (take n ls) = drop (n - nat c) (take n ls)"
proof (cases "0 \<le> c")
  case True
  then have "nat (max 0 (int n - c)) = n - nat c"
    by (simp add: max_def nat_diff_distrib')
  then show ?thesis by simp
next
  case False
  then show ?thesis by simp
qed

text \<open>
  Claim C9: the instruction block does not depend on the lines after the cursor line. Two
  documents with the same clamped cursor line that agree up to and including that line
  give the same block, for the same cursor, filetype, indentation and engine;
  \<open>context_lines_after\<close> is never read; and the before-context consists of the
  \<open>min bl context_lines_before\<close> lines that immediately precede the cursor line
  \<open>bl\<close> (none when \<open>context_lines_before\<close> is not positive).
\<close>

theorem centered_prefix_ignores_later_lines:
  "(bounded_line_of l1 line = bounded_line_of l2 line
      \<and> take (nat (bounded_line_of l1 line) + 1) l1 = take (nat (bounded_line_of l1 line) + 1) l2
     \<longrightarrow> centered_prefix eng l1 line character filetype indent
         = centered_prefix eng l2 line character filetype indent)
   \<and> centered_prefix (eng\<lparr>context_lines_after := a\<rparr>) l1 line character filetype indent
       = centered_prefix eng l1 line character filetype indent
   \<and> (let ls = (if l1 = [] then [[]] else l1);
          bl = nat (bounded_line_of l1 line);
          cur = ls ! bl;
          bc = nat (max 0 (min character (int (length cur))));
          before_lines = drop (bl - nat (context_lines_before eng)) (take bl ls);
          before_text0 = py_join nl before_lines;
          before_text = (if int (length before_text0) > max_prefix_chars eng
                         then py_slice before_text0 (Some (- max_prefix_chars eng)) None
                         else before_text0)
      in length before_lines = min bl (nat (context_lines_before eng))
       \<and> centered_prefix eng l1 line character filetype indent
         = Inr (instruction_block filetype indent before_text (take bc cur) (drop bc cur)))"
proof -
  define ls where "ls = (if l1 = [] then [[]] else l1)"
  define bl where "bl = nat (bounded_line_of l1 line)"
  have "ls \<noteq> []" by (simp add: ls_def)
  then have "nat (bounded_line_of ls line) < length ls"
    by (rule bounded_line_of_lt)
  moreover have "bounded_line_of ls line = bounded_line_of l1 line"
    by (auto simp: ls_def bounded_line_of_def)
  ultimately have lt: "bl < length ls"
    by (simp add: bl_def)
  have len: "length (drop (bl - nat (context_lines_before eng)) (take bl ls))
      = min bl (nat (context_lines_before eng))"
    using lt by auto
  have a: "centered_prefix (eng\<lparr>context_lines_after := a\<rparr>) l1 line character filetype indent
       = centered_prefix eng l1 line character filetype indent"
    by (rule centered_prefix_reads) simp_all
  have w: "bounded_line_of l1 line = bounded_line_of l2 line
      \<and> take (bl + 1) l1 = take (bl + 1) l2
     \<longrightarrow> centered_prefix eng l1 line character filetype indent
         = centered_prefix eng l2 line character filetype indent"
    unfolding bl_def using centered_prefix_same_window by blast
  have e: "centered_prefix eng l1 line character filetype indent =
      Inr (instruction_block filetype indent
        (if int (length (py_join nl (drop (bl - nat (context_lines_before eng)) (take bl ls))))
              > max_prefix_chars eng
         then py_slice (py_join nl (drop (bl - nat (context_lines_before eng)) (take bl ls)))
                (Some (- max_prefix_chars eng)) None
         else py_join nl (drop (bl - nat (context_lines_before eng)) (take bl ls)))
        (take (nat (max 0 (min character (int (length (ls ! bl)))))) (ls ! bl))
        (drop (nat (max 0 (min character (int (length (ls ! bl)))))) (ls ! bl)))"
    unfolding centered_prefix_eq Let_def ls_def [symmetric] bl_def [symmetric] before_lines_window ..
  show ?thesis
    unfolding Let_def ls_def [symmetric] bl_def [symmetric]
    using w a len e by (intro conjI)
qed

theorem centered_prefix_ignores_later_lines_witness:
  "bounded_line_of [''a'', ''b'', ''c''] 1 = bounded_line_of [''a'', ''b'', ''zz'', ''y''] 1
   \<and> take (nat (bounded_line_of [''a'', ''b'', ''c''] 1) + 1) [''a'', ''b'', ''c'']
     = take (nat (bounded_line_of [''a'', ''b'', ''c''] 1) + 1) [''a'', ''b'', ''zz'', ''y'']
   \<and> centered_prefix default_engine [''a'', ''b'', ''c''] 1 1 ''lua'' ''''
     = centered_prefix default_engine [''a'', ''b'', ''zz'', ''y''] 1 1 ''lua'' ''''"
proof -
  have h: "bounded_line_of [''a'', ''b'', ''c''] 1 = bounded_line_of [''a'', ''b'', ''zz'', ''y''] 1
   \<and> take (nat (bounded_line_of [''a'', ''b'', ''c''] 1) + 1) [''a'', ''b'', ''c'']
     = take (nat (bounded_line_of [''a'', ''b'', ''c''] 1) + 1) [''a'', ''b'', ''zz'', ''y'']"
    by (simp add: bounded_line_of_def)
  show ?thesis
    using h centered_prefix_ignores_later_lines
      [of "[''a'', ''b'', ''c'']" 1 "[''a'', ''b'', ''zz'', ''y'']" default_engine 1 "''lua''" "''''"]
    by blast
qed

section \<open>Normalization of stream chunks\<close>

text \<open>
  Claim C8, as amended: a dictionary passes through unchanged; an object with a
  \<^verbatim>\<open>model_dump\<close> method, or else with a \<^verbatim>\<open>dict\<close> method, is replaced by what that
  method returns; any other chunk is wrapped as \<open>{response: str(chunk)}\<close>. Only the
  wrapped chunk is sure to have a textual \<open>response\<close>: a dictionary that passes
  through has one exactly when it had one before.
\<close>

theorem normalize_chunk_cases:
  "normalize_chunk (ChunkDict d) = VDict d
   \<and> (has_text_response (normalize_chunk (ChunkDict d))
        \<longleftrightarrow> (\<exists>s. map_of d ''response'' = Some (VStr s)))
   \<and> (model_dump_result ob = Some v \<longrightarrow> normalize_chunk (ChunkObj ob) = v)
   \<and> (model_dump_result ob = None \<and> dict_result ob = Some v
        \<longrightarrow> normalize_chunk (ChunkObj ob) = v)
   \<and> (model_dump_result ob = None \<and> dict_result ob = None
        \<longrightarrow> normalize_chunk (ChunkObj ob) = VDict [(''response'', VStr (str_result ob))]
          \<and> has_text_response (normalize_chunk (ChunkObj ob)))"
  by (auto simp: has_text_response_def split: option.splits pyval.splits)

theorem normalize_chunk_cases_witness:
  "normalize_chunk (ChunkObj \<lparr>model_dump_result = Some (VDict [(''response'', VStr ''a'')]),
       dict_result = None, str_result = ''x''\<rparr>) = VDict [(''response'', VStr ''a'')]
   \<and> normalize_chunk (ChunkObj \<lparr>model_dump_result = None,
       dict_result = Some (VDict [(''done'', VBool True)]), str_result = ''x''\<rparr>)
       = VDict [(''done'', VBool True)]
   \<and> normalize_chunk (ChunkObj \<lparr>model_dump_result = None, dict_result = None,
       str_result = ''tok''\<rparr>) = VDict [(''response'', VStr ''tok'')]"
  using normalize_chunk_cases [of "[]" "\<lparr>model_dump_result = Some (VDict [(''response'', VStr ''a'')]),
       dict_result = None, str_result = ''x''\<rparr>" "VDict [(''response'', VStr ''a'')]"]
    normalize_chunk_cases [of "[]" "\<lparr>model_dump_result = None,
       dict_result = Some (VDict [(''done'', VBool True)]), str_result = ''x''\<rparr>"
       "VDict [(''done'', VBool True)]"]
    normalize_chunk_cases [of "[]" "\<lparr>model_dump_result = None, dict_result = None,
       str_result = ''tok''\<rparr>" VNone]
  by simp

text \<open>
  Claim C8 as first stated promises a textual \<open>response\<close> field for every chunk. A
  dictionary chunk without that key is returned as it is.
\<close>

theorem normalize_chunk_without_response:
  "normalize_chunk (ChunkDict [(''done'', VBool True)]) = VDict [(''done'', VBool True)]
   \<and> \<not> has_text_response (normalize_chunk (ChunkDict [(''done'', VBool True)]))"
  by (simp add: has_text_response_def)

section \<open>The capability fallback of the top-level completion\<close>

lemma complete_cases:
  assumes p1: "build_request_payload eng lines line character filetype False = Inr p1"
    and p2: "build_request_payload eng lines line character filetype True = Inr p2"
  shows "complete eng g lines line character filetype c s =
    (case g c p1 of
       (Inr stream, c1) \<Rightarrow>
         (Inr (debug_stream eng stream), c1, debug_log eng ''payload'' (VDict p1) s)
     | (Inl (Exn kind msg), c1) \<Rightarrow>
         if kind = TypeError \<and> str_contains ''suffix'' msg
         then (case g c1 p2 of
                 (r2, c2) \<Rightarrow>
                   (case r2 of Inl e \<Rightarrow> Inl e | Inr stream \<Rightarrow> Inr (debug_stream eng stream),
                    c2,
                    debug_log eng ''payload_fallback'' (VDict p2)
                      (debug_log eng ''payload'' (VDict p1) s)))
         else (Inl (Exn kind msg), c1, debug_log eng ''payload'' (VDict p1) s))"
  unfolding complete_def p1 p2
  by (simp add: Let_def split: prod.splits sum.splits exn.splits)

lemma build_request_payload_suffix_key:
  assumes "build_request_payload eng lines line character filetype force = Inr p"
  shows "''suffix'' \<in> dict_keys p \<longleftrightarrow> use_template_fim eng force"
proof -
  obtain pre suf ind where s: "split_prefix_suffix lines line character = Inr (pre, suf, ind)"
    using split_prefix_suffix_total by blast
  obtain block where c: "centered_prefix eng lines line character filetype ind = Inr block"
    using centered_prefix_total by blast
  show ?thesis
    using assms
    by (auto simp: build_request_payload_def s c Let_def dict_keys_def split: if_splits)
qed

lemma recording_apply:
  "g c p = (r, c1) \<Longrightarrow> recording g (c, sent) p = (r, c1, sent @ [p])"
  by (simp add: recording_def)

text \<open>
  Claim C3: when the first submission raises a type error whose message mentions
  \<open>suffix\<close>, the payload is rebuilt once with \<open>force_manual_fim\<close> true and submitted
  again, and the outcome of that second submission, a stream or any error, is the
  outcome of \<open>complete\<close>. An error of another class, or a type error that does not
  mention \<open>suffix\<close>, goes to the caller after the single submission. The backend is
  arbitrary; \<open>submissions\<close> lists what was sent.
\<close>

theorem complete_retries_once_on_suffix_type_error:
  "\<exists>p1 p2.
      build_request_payload eng lines line character filetype False = Inr p1
    \<and> build_request_payload eng lines line character filetype True = Inr p2
    \<and> ''suffix'' \<notin> dict_keys p2
    \<and> (\<forall>stream c1. generate c p1 = (Inr stream, c1) \<longrightarrow>
          fst (complete eng generate lines line character filetype c s)
            = Inr (debug_stream eng stream)
        \<and> fst (snd (complete eng generate lines line character filetype c s)) = c1
        \<and> submissions eng generate lines line character filetype c s = [p1])
    \<and> (\<forall>kind msg c1. generate c p1 = (Inl (Exn kind msg), c1)
            \<and> \<not> (kind = TypeError \<and> str_contains ''suffix'' msg) \<longrightarrow>
          fst (complete eng generate lines line character filetype c s) = Inl (Exn kind msg)
        \<and> fst (snd (complete eng generate lines line character filetype c s)) = c1
        \<and> submissions eng generate lines line character filetype c s = [p1])
    \<and> (\<forall>msg c1 r2 c2. generate c p1 = (Inl (Exn TypeError msg), c1)
            \<and> str_contains ''suffix'' msg \<and> generate c1 p2 = (r2, c2) \<longrightarrow>
          fst (complete eng generate lines line character filetype c s)
            = (case r2 of Inl e \<Rightarrow> Inl e | Inr stream \<Rightarrow> Inr (debug_stream eng stream))
        \<and> fst (snd (complete eng generate lines line character filetype c s)) = c2
        \<and> submissions eng generate lines line character filetype c s = [p1, p2])"
proof -
  obtain p1 where p1: "build_request_payload eng lines line character filetype False = Inr p1"
    using build_request_payload_total by blast
  obtain p2 where p2: "build_request_payload eng lines line character filetype True = Inr p2"
    using build_request_payload_total by blast
  have "\<not> use_template_fim eng True"
    by (simp add: use_template_fim_def)
  then have k: "''suffix'' \<notin> dict_keys p2"
    using build_request_payload_suffix_key [OF p2] by simp
  note cc = complete_cases [OF p1 p2]
  have a: "fst (complete eng generate lines line character filetype c s)
            = Inr (debug_stream eng stream)
        \<and> fst (snd (complete eng generate lines line character filetype c s)) = c1
        \<and> submissions eng generate lines line character filetype c s = [p1]"
    if "generate c p1 = (Inr stream, c1)" for stream c1
    using that by (simp add: cc submissions_def recording_def)
  have b: "fst (complete eng generate lines line character filetype c s) = Inl (Exn kind msg)
        \<and> fst (snd (complete eng generate lines line character filetype c s)) = c1
        \<and> submissions eng generate lines line character filetype c s = [p1]"
    if "generate c p1 = (Inl (Exn kind msg), c1)"
      and "\<not> (kind = TypeError \<and> str_contains ''suffix'' msg)" for kind msg c1
    using that by (auto simp: cc submissions_def recording_def)
  have r: "fst (complete eng generate lines line character filetype c s)
            = (case r2 of Inl e \<Rightarrow> Inl e | Inr stream \<Rightarrow> Inr (debug_stream eng stream))
        \<and> fst (snd (complete eng generate lines line character filetype c s)) = c2
        \<and> submissions eng generate lines line character filetype c s = [p1, p2]"
    if "generate c p1 = (Inl (Exn TypeError msg), c1)" and "str_contains ''suffix'' msg"
      and "generate c1 p2 = (r2, c2)" for msg c1 r2 c2
    using that by (simp add: cc submissions_def recording_def)
  show ?thesis
    apply (rule exI [of _ p1], rule exI [of _ p2])
    using p1 p2 k a b r by blast
qed

theorem complete_retries_once_on_suffix_type_error_witness:
  "fst (complete default_engine old_client [''ab''] 0 1 '''' 0 \<lparr>writable = True, entries = []\<rparr>)
     = Inr (debug_stream default_engine [ChunkDict [(''response'', VStr ''x'')]])
   \<and> fst (snd (complete default_engine old_client [''ab''] 0 1 '''' 0
        \<lparr>writable = True, entries = []\<rparr>)) = 2
   \<and> length (submissions default_engine old_client [''ab''] 0 1 '''' 0
        \<lparr>writable = True, entries = []\<rparr>) = 2
   \<and> fst (complete default_engine (\<lambda>n p. (Inl (Exn TypeError ''model not found''), Suc n))
        [''ab''] 0 1 '''' 0 \<lparr>writable = True, entries = []\<rparr>)
     = Inl (Exn TypeError ''model not found'')
   \<and> length (submissions default_engine (\<lambda>n p. (Inl (Exn TypeError ''model not found''), Suc n))
        [''ab''] 0 1 '''' 0 \<lparr>writable = True, entries = []\<rparr>) = 1
   \<and> fst (complete (default_engine\<lparr>fim_mode := VStr ''manual''\<rparr>) old_client
        [''ab''] 0 1 '''' 0 \<lparr>writable = True, entries = []\<rparr>)
     = Inr (debug_stream (default_engine\<lparr>fim_mode := VStr ''manual''\<rparr>)
         [ChunkDict [(''response'', VStr ''x'')]])
   \<and> length (submissions (default_engine\<lparr>fim_mode := VStr ''manual''\<rparr>) old_client
        [''ab''] 0 1 '''' 0 \<lparr>writable = True, entries = []\<rparr>) = 1"
proof -
  let ?s = "\<lparr>writable = True, entries = []\<rparr>"
  let ?other = "\<lambda>(n::nat) (p::pydict).
      (Inl (Exn TypeError ''model not found'') :: exn + chunk list, Suc n)"
  let ?manual = "default_engine\<lparr>fim_mode := VStr ''manual''\<rparr>"
  have b1: "build_request_payload default_engine [''ab''] 0 1 '''' False =
      Inr [(''model'', VStr ''qwen2.5-coder:3b''), (''stream'', VBool True),
           (''options'', VDict []), (''prompt'', VStr ''a''), (''suffix'', VStr ''b'')]"
    by code_simp
  have b2: "build_request_payload default_engine [''ab''] 0 1 '''' True =
      Inr [(''model'', VStr ''qwen2.5-coder:3b''), (''stream'', VBool True),
           (''options'', VDict []),
           (''prompt'', VStr ''<|fim_prefix|>a<|fim_suffix|>b<|fim_middle|>'')]"
    by code_simp
  have b3: "build_request_payload ?manual [''ab''] 0 1 '''' False =
      Inr [(''model'', VStr ''qwen2.5-coder:3b''), (''stream'', VBool True),
           (''options'', VDict []),
           (''prompt'', VStr ''<|fim_prefix|>a<|fim_suffix|>b<|fim_middle|>'')]"
    by code_simp
  have b4: "build_request_payload ?manual [''ab''] 0 1 '''' True =
      Inr [(''model'', VStr ''qwen2.5-coder:3b''), (''stream'', VBool True),
           (''options'', VDict []),
           (''prompt'', VStr ''<|fim_prefix|>a<|fim_suffix|>b<|fim_middle|>'')]"
    by code_simp
  have m: "str_contains ''suffix'' ''generate() got an unexpected keyword argument suffix''"
    by code_simp
  have n: "\<not> str_contains ''suffix'' ''model not found''"
    by code_simp
  have retry: "fst (complete default_engine old_client [''ab''] 0 1 '''' 0 ?s)
       = Inr (debug_stream default_engine [ChunkDict [(''response'', VStr ''x'')]])
     \<and> fst (snd (complete default_engine old_client [''ab''] 0 1 '''' 0 ?s)) = 2
     \<and> length (submissions default_engine old_client [''ab''] 0 1 '''' 0 ?s) = 2"
    using complete_retries_once_on_suffix_type_error
      [of default_engine "[''ab'']" 0 1 "''''" old_client 0 ?s] m
    unfolding b1 b2 by (auto simp: old_client_def)
  have other: "fst (complete default_engine ?other [''ab''] 0 1 '''' 0 ?s)
       = Inl (Exn TypeError ''model not found'')
     \<and> length (submissions default_engine ?other [''ab''] 0 1 '''' 0 ?s) = 1"
    using complete_retries_once_on_suffix_type_error
      [of default_engine "[''ab'']" 0 1 "''''" ?other 0 ?s] n
    unfolding b1 b2 by auto
  have first: "fst (complete ?manual old_client [''ab''] 0 1 '''' 0 ?s)
       = Inr (debug_stream ?manual [ChunkDict [(''response'', VStr ''x'')]])
     \<and> length (submissions ?manual old_client [''ab''] 0 1 '''' 0 ?s) = 1"
    using complete_retries_once_on_suffix_type_error
      [of ?manual "[''ab'']" 0 1 "''''" old_client 0 ?s]
    unfolding b3 b4 by (auto simp: old_client_def)
  show ?thesis
    using retry other first by blast
qed

section \<open>The sentinel markers of the manual FIM prompt\<close>

text \<open>
  Where a marker can occur in a text framed by tokens: every token and the marker start
  with a character that occurs nowhere else in them, and all have the same length, so an
  occurrence either is one of the tokens or lies inside one of the framed texts.
\<close>

lemma occurrence_contained:
  assumes "take (length m) (drop i q) = m"
  shows "str_contains m q"
proof -
  have "drop i q = m @ drop (length m) (drop i q)"
    using append_take_drop_id [of "length m" "drop i q"] assms by simp
  then have "q = take i q @ m @ drop (length m) (drop i q)"
    using append_take_drop_id [of i q] by simp
  then show ?thesis
    using str_contains_later [OF str_contains_here] by metis
qed

lemma token_occurrence_at_start:
  assumes T: "t = c # b" and cb: "c \<notin> set b" and m: "m = c # mb"
    and len: "length m = length t"
    and occ: "take (length m) (drop i (t @ r)) = m" and i: "i < length t"
  shows "i = 0 \<and> m = t"
proof (cases i)
  case 0
  with occ len show ?thesis by simp
next
  case (Suc k)
  have k: "k < length b" using i Suc T by simp
  have "drop i (t @ r) = drop k b @ r"
    using Suc T k by simp
  also have "\<dots> = b ! k # drop (Suc k) b @ r"
    using k by (simp add: Cons_nth_drop_Suc)
  finally have "take (length m) (b ! k # drop (Suc k) b @ r) = m"
    using occ by simp
  then have "b ! k = c"
    using m by simp
  then have "c \<in> set b"
    using k nth_mem by metis
  with cb show ?thesis by simp
qed

lemma token_occurrence_not_straddling:
  assumes T: "t = c # b" and m: "m = c # mb" and cm: "c \<notin> set mb"
    and occ: "take (length m) (drop i (q @ t @ r)) = m" and i: "i < length q"
  shows "i + length m \<le> length q"
proof (rule ccontr)
  assume "\<not> i + length m \<le> length q"
  define j where "j = length q - i"
  have j: "0 < j" "j < length m" "i + j = length q"
    using i \<open>\<not> i + length m \<le> length q\<close> by (auto simp: j_def)
  have "m ! j = take (length m) (drop i (q @ t @ r)) ! j"
    by (simp only: occ)
  also have "\<dots> = drop i (q @ t @ r) ! j"
    using j(2) by (rule nth_take)
  also have "\<dots> = (q @ t @ r) ! (i + j)"
    using i by (intro nth_drop) simp
  also have "\<dots> = c"
    using j T by (simp add: nth_append)
  finally have "m ! j = c" .
  moreover have "m ! j = mb ! (j - 1)"
    using j m by (simp add: nth_Cons')
  moreover have "j - 1 < length mb"
    using j m by simp
  ultimately have "c \<in> set mb"
    using nth_mem by metis
  with cm show False by simp
qed

lemma occurrence_within:
  assumes "take (length m) (drop i (q @ x)) = m" and "i + length m \<le> length q"
  shows "str_contains m q"
proof -
  have "take (length m) (drop i q) = take (length m) (drop i (q @ x))"
    using assms(2) by simp
  then show ?thesis
    using assms(1) occurrence_contained by metis
qed

lemma framed_occurrences:
  assumes t1: "t1 = c # b1" "c \<notin> set b1" and t2: "t2 = c # b2" "c \<notin> set b2"
    and t3: "t3 = c # b3" "c \<notin> set b3" and m: "m = c # mb" "c \<notin> set mb"
    and l1: "length m = length t1" and l2: "length m = length t2" and l3: "length m = length t3"
    and nP: "\<not> str_contains m p" and nS: "\<not> str_contains m s"
    and occ: "i \<in> set (occurrences m (t1 @ p @ t2 @ s @ t3))"
  shows "(i = 0 \<and> m = t1) \<or> (i = length t1 + length p \<and> m = t2)
       \<or> (i = length t1 + length p + length t2 + length s \<and> m = t3)"
proof -
  have lt: "i < length (t1 @ p @ t2 @ s @ t3)"
    and tk: "take (length m) (drop i (t1 @ p @ t2 @ s @ t3)) = m"
    using occ by (simp_all add: occurrences_iff)
  show ?thesis
  proof (cases "i < length t1")
    case True
    then show ?thesis
      using token_occurrence_at_start [OF t1 m(1) l1 tk] by simp
  next
    case False
    define i1 where "i1 = i - length t1"
    have tk1: "take (length m) (drop i1 (p @ t2 @ s @ t3)) = m"
      using tk False by (simp add: i1_def)
    show ?thesis
    proof (cases "i1 < length p")
      case True
      have "i1 + length m \<le> length p"
        using token_occurrence_not_straddling [OF t2(1) m tk1 True] .
      then have "str_contains m p"
        using occurrence_within [OF tk1] by simp
      with nP show ?thesis by simp
    next
      case p: False
      define i2 where "i2 = i1 - length p"
      have tk2: "take (length m) (drop i2 (t2 @ s @ t3)) = m"
        using tk1 p by (simp add: i2_def)
      show ?thesis
      proof (cases "i2 < length t2")
        case True
        then have "i2 = 0 \<and> m = t2"
          using token_occurrence_at_start [OF t2 m(1) l2 tk2] by simp
        then show ?thesis
          using False p by (auto simp: i1_def i2_def)
      next
        case t: False
        define i3 where "i3 = i2 - length t2"
        have tk3: "take (length m) (drop i3 (s @ t3 @ [])) = m"
          using tk2 t by (simp add: i3_def)
        show ?thesis
        proof (cases "i3 < length s")
          case True
          have "i3 + length m \<le> length s"
            using token_occurrence_not_straddling [OF t3(1) m tk3 True] .
          then have "str_contains m s"
            using occurrence_within [OF tk3] by simp
          with nS show ?thesis by simp
        next
          case s: False
          define i4 where "i4 = i3 - length s"
          have tk4: "take (length m) (drop i4 (t3 @ [])) = m"
            using tk3 s by (simp add: i4_def)
          have "i4 < length t3"
            using lt False p t s by (simp add: i1_def i2_def i3_def i4_def)
          then have "i4 = 0 \<and> m = t3"
            using token_occurrence_at_start [OF t3 m(1) l3 tk4] by simp
          then show ?thesis
            using False p t s by (auto simp: i1_def i2_def i3_def i4_def)
        qed
      qed
    qed
  qed
qed

lemma occurrence_after: "t \<noteq> [] \<Longrightarrow> length a \<in> set (occurrences t (a @ t @ x))"
  by (simp add: occurrences_iff)

lemma occurrences_single:
  assumes "k \<in> set (occurrences m w)" and "\<And>i. i \<in> set (occurrences m w) \<Longrightarrow> i = k"
  shows "occurrences m w = [k]"
proof -
  have d: "distinct (occurrences m w)"
    by (simp add: occurrences_def)
  show ?thesis
  proof (cases "occurrences m w")
    case Nil
    with assms(1) show ?thesis by simp
  next
    case (Cons x xs)
    have "x = k" using assms(2) Cons by simp
    moreover have "xs = []"
    proof (cases xs)
      case (Cons y ys)
      then have "y = k" using assms(2) \<open>occurrences m w = x # xs\<close> by simp
      with d \<open>occurrences m w = x # xs\<close> Cons \<open>x = k\<close> show ?thesis by simp
    qed simp
    ultimately show ?thesis using Cons by simp
  qed
qed

lemma manual_fim_markers_once:
  assumes "\<not> str_contains ''<|fim_prefix|>'' p" "\<not> str_contains ''<|fim_suffix|>'' p"
    "\<not> str_contains ''<|fim_middle|>'' p"
    "\<not> str_contains ''<|fim_prefix|>'' s" "\<not> str_contains ''<|fim_suffix|>'' s"
    "\<not> str_contains ''<|fim_middle|>'' s"
  shows "occurrences ''<|fim_prefix|>'' (''<|fim_prefix|>'' @ p @ ''<|fim_suffix|>'' @ s @ ''<|fim_middle|>'') = [0]"
    and "occurrences ''<|fim_suffix|>'' (''<|fim_prefix|>'' @ p @ ''<|fim_suffix|>'' @ s @ ''<|fim_middle|>'') = [14 + length p]"
    and "occurrences ''<|fim_middle|>'' (''<|fim_prefix|>'' @ p @ ''<|fim_suffix|>'' @ s @ ''<|fim_middle|>'') = [28 + length p + length s]"
proof -
  let ?w = "''<|fim_prefix|>'' @ p @ ''<|fim_suffix|>'' @ s @ ''<|fim_middle|>''"
  have fr: "(i = 0 \<and> m = ''<|fim_prefix|>'')
      \<or> (i = length ''<|fim_prefix|>'' + length p \<and> m = ''<|fim_suffix|>'')
      \<or> (i = length ''<|fim_prefix|>'' + length p + length ''<|fim_suffix|>'' + length s
          \<and> m = ''<|fim_middle|>'')"
    if "m = CHR ''<'' # mb" "CHR ''<'' \<notin> set mb" "length m = 14"
      "\<not> str_contains m p" "\<not> str_contains m s" "i \<in> set (occurrences m ?w)"
    for m mb i
    by (rule framed_occurrences [where c = "CHR ''<''" and ?b1.0 = "''|fim_prefix|>''"
          and ?b2.0 = "''|fim_suffix|>''" and ?b3.0 = "''|fim_middle|>''" and mb = mb
          and p = p and s = s])
      (use that in simp_all)
  show "occurrences ''<|fim_prefix|>'' ?w = [0]"
  proof (rule occurrences_single)
    show "0 \<in> set (occurrences ''<|fim_prefix|>'' ?w)"
      using occurrence_after [of "''<|fim_prefix|>''" "[]" "p @ ''<|fim_suffix|>'' @ s @ ''<|fim_middle|>''"]
      by simp
  next
    fix i assume "i \<in> set (occurrences ''<|fim_prefix|>'' ?w)"
    then show "i = 0"
      using fr [of "''<|fim_prefix|>''" "''|fim_prefix|>''" i] assms by simp
  qed
  show "occurrences ''<|fim_suffix|>'' ?w = [14 + length p]"
  proof (rule occurrences_single)
    show "14 + length p \<in> set (occurrences ''<|fim_suffix|>'' ?w)"
    proof -
      have e: "length (''<|fim_prefix|>'' @ p) = 14 + length p"
        by simp
      show ?thesis
        using occurrence_after [of "''<|fim_suffix|>''" "''<|fim_prefix|>'' @ p" "s @ ''<|fim_middle|>''"]
        unfolding e by simp
    qed
  next
    fix i assume "i \<in> set (occurrences ''<|fim_suffix|>'' ?w)"
    then show "i = 14 + length p"
      using fr [of "''<|fim_suffix|>''" "''|fim_suffix|>''" i] assms by simp
  qed
  show "occurrences ''<|fim_middle|>'' ?w = [28 + length p + length s]"
  proof (rule occurrences_single)
    show "28 + length p + length s \<in> set (occurrences ''<|fim_middle|>'' ?w)"
    proof -
      have e: "length (''<|fim_prefix|>'' @ p @ ''<|fim_suffix|>'' @ s) = 28 + length p + length s"
        by simp
      show ?thesis
        using occurrence_after [of "''<|fim_middle|>''" "''<|fim_prefix|>'' @ p @ ''<|fim_suffix|>'' @ s" "[]"]
        unfolding e by simp
    qed
  next
    fix i assume "i \<in> set (occurrences ''<|fim_middle|>'' ?w)"
    then show "i = 28 + length p + length s"
      using fr [of "''<|fim_middle|>''" "''|fim_middle|>''" i] assms by simp
  qed
qed

text \<open>
  Claim C5, as amended: the manual-FIM prompt is the prefix token, the prefix, the suffix
  token, the slice \<^verbatim>\<open>suffix[:max_suffix_chars]\<close> (the first \<open>max_suffix_chars\<close>
  characters when that bound is not negative) and the middle token. When the builder takes
  the manual branch and neither the bounded prefix nor the bounded suffix it sends
  contains one of the three markers, the prompt contains each marker exactly once, in the
  order prefix, suffix, middle.
\<close>

theorem manual_fim_prompt_markers:
  "manual_fim_prompt eng pre suf =
      ''<|fim_prefix|>'' @ pre @ ''<|fim_suffix|>''
      @ py_slice suf None (Some (max_suffix_chars eng)) @ ''<|fim_middle|>''
   \<and> (0 \<le> max_suffix_chars eng \<longrightarrow>
        py_slice suf None (Some (max_suffix_chars eng)) = take (nat (max_suffix_chars eng)) suf)
   \<and> (truthy (fim_enabled eng) \<and> \<not> use_template_fim eng force
        \<and> split_prefix_suffix lines line character = Inr (p, s, ind)
        \<and> (\<forall>m \<in> {''<|fim_prefix|>'', ''<|fim_suffix|>'', ''<|fim_middle|>''}.
              \<not> str_contains m (py_slice p (Some (- max_prefix_chars eng)) None)
            \<and> \<not> str_contains m (py_slice s None (Some (max_suffix_chars eng))))
       \<longrightarrow> (\<exists>w i j.
              prompt_of (build_request_payload eng lines line character filetype force) = Some w
            \<and> occurrences ''<|fim_prefix|>'' w = [0]
            \<and> occurrences ''<|fim_suffix|>'' w = [i]
            \<and> occurrences ''<|fim_middle|>'' w = [j]
            \<and> 0 < i \<and> i < j))"
proof (intro conjI impI)
  show "manual_fim_prompt eng pre suf =
      ''<|fim_prefix|>'' @ pre @ ''<|fim_suffix|>''
      @ py_slice suf None (Some (max_suffix_chars eng)) @ ''<|fim_middle|>''"
    by (simp add: manual_fim_prompt_def Let_def)
next
  assume "0 \<le> max_suffix_chars eng"
  then show "py_slice suf None (Some (max_suffix_chars eng)) = take (nat (max_suffix_chars eng)) suf"
    by (rule py_slice_to_nonneg)
next
  assume a: "truthy (fim_enabled eng) \<and> \<not> use_template_fim eng force
        \<and> split_prefix_suffix lines line character = Inr (p, s, ind)
        \<and> (\<forall>m \<in> {''<|fim_prefix|>'', ''<|fim_suffix|>'', ''<|fim_middle|>''}.
              \<not> str_contains m (py_slice p (Some (- max_prefix_chars eng)) None)
            \<and> \<not> str_contains m (py_slice s None (Some (max_suffix_chars eng))))"
  define p' where "p' = py_slice p (Some (- max_prefix_chars eng)) None"
  define s' where "s' = py_slice s None (Some (max_suffix_chars eng))"
  let ?w = "''<|fim_prefix|>'' @ p' @ ''<|fim_suffix|>'' @ s' @ ''<|fim_middle|>''"
  obtain block where c: "centered_prefix eng lines line character filetype ind = Inr block"
    using centered_prefix_total by blast
  have w: "prompt_of (build_request_payload eng lines line character filetype force) = Some ?w"
    using a
    by (simp add: build_request_payload_def c Let_def prompt_of_def payload_str_def
        manual_fim_prompt_def p'_def s'_def)
  have n: "\<not> str_contains ''<|fim_prefix|>'' p'" "\<not> str_contains ''<|fim_suffix|>'' p'"
    "\<not> str_contains ''<|fim_middle|>'' p'"
    "\<not> str_contains ''<|fim_prefix|>'' s'" "\<not> str_contains ''<|fim_suffix|>'' s'"
    "\<not> str_contains ''<|fim_middle|>'' s'"
    using a by (simp_all add: p'_def s'_def)
  note o = manual_fim_markers_once [OF n]
  show "\<exists>w i j.
              prompt_of (build_request_payload eng lines line character filetype force) = Some w
            \<and> occurrences ''<|fim_prefix|>'' w = [0]
            \<and> occurrences ''<|fim_suffix|>'' w = [i]
            \<and> occurrences ''<|fim_middle|>'' w = [j]
            \<and> 0 < i \<and> i < j"
    apply (rule exI [of _ ?w], rule exI [of _ "14 + length p'"],
        rule exI [of _ "28 + length p' + length s'"])
    using w o by simp
qed

theorem manual_fim_prompt_markers_witness:
  "\<exists>w i j. prompt_of (build_request_payload (default_engine\<lparr>fim_mode := VStr ''manual''\<rparr>)
        [''ab'', ''cd''] 0 1 '''' False) = Some w
     \<and> occurrences ''<|fim_prefix|>'' w = [0]
     \<and> occurrences ''<|fim_suffix|>'' w = [i]
     \<and> occurrences ''<|fim_middle|>'' w = [j]
     \<and> 0 < i \<and> i < j"
proof -
  let ?eng = "default_engine\<lparr>fim_mode := VStr ''manual''\<rparr>"
  have s: "split_prefix_suffix [''ab'', ''cd''] 0 1 = Inr (''a'', ''b'' @ nl @ ''cd'', [])"
    by code_simp
  have e: "truthy (fim_enabled ?eng) \<and> \<not> use_template_fim ?eng False"
    by (simp add: default_engine_def use_template_fim_def)
  have n: "\<forall>m \<in> {''<|fim_prefix|>'', ''<|fim_suffix|>'', ''<|fim_middle|>''}.
              \<not> str_contains m (py_slice ''a'' (Some (- max_prefix_chars ?eng)) None)
            \<and> \<not> str_contains m (py_slice (''b'' @ nl @ ''cd'') None (Some (max_suffix_chars ?eng)))"
    by (simp add: default_engine_def py_slice_def slice_bound_def)
  show ?thesis
    using manual_fim_prompt_markers [of ?eng "[]" "[]" False "[''ab'', ''cd'']" 0 1
        "''a''" "''b'' @ nl @ ''cd''" "[]" "''''"] s e n
    by blast
qed

text \<open>
  Claim C5 as first stated speaks of every document. A document line that is itself the
  middle marker makes that marker occur twice in the prompt.
\<close>

theorem manual_fim_prompt_marker_twice:
  "map_option (occurrences ''<|fim_middle|>'')
     (prompt_of (build_request_payload (default_engine\<lparr>fim_mode := VStr ''manual''\<rparr>)
        [''<|fim_middle|>''] 0 0 '''' False)) = Some [28, 42]"
  by code_simp

end
